theory Spec2Isabelle
  imports Main "HOL-Library.Sublist"
begin

section \<open>Go strings used by the registry\<close>

text \<open>
  Go strings are byte sequences; they are modelled as \<^typ>\<open>string\<close>, one \<^typ>\<open>char\<close> per byte.
  \<^verbatim>\<open>strings.Index(s, substr)\<close> is the index of the first occurrence of \<^verbatim>\<open>substr\<close> in
  \<^verbatim>\<open>s\<close>, or \<open>-1\<close>; \<^verbatim>\<open>strings.LastIndex\<close> is the index of the last one, or \<open>-1\<close>.
\<close>

fun indexFrom :: "nat \<Rightarrow> string \<Rightarrow> string \<Rightarrow> int" where
  "indexFrom i [] substr = (if substr = [] then int i else -1)"
| "indexFrom i (c # s) substr =
     (if prefix substr (c # s) then int i else indexFrom (Suc i) s substr)"

definition strings_Index :: "string \<Rightarrow> string \<Rightarrow> int" where
  "strings_Index s substr = indexFrom 0 s substr"

fun lastIndexFrom :: "nat \<Rightarrow> int \<Rightarrow> string \<Rightarrow> string \<Rightarrow> int" where
  "lastIndexFrom i found [] substr = (if substr = [] then int i else found)"
| "lastIndexFrom i found (c # s) substr =
     lastIndexFrom (Suc i) (if prefix substr (c # s) then int i else found) s substr"

definition strings_LastIndex :: "string \<Rightarrow> string \<Rightarrow> int" where
  "strings_LastIndex s substr = lastIndexFrom 0 (-1) s substr"

text \<open>\<^verbatim>\<open>strings.Contains(s, substr)\<close> is \<^verbatim>\<open>strings.Index(s, substr) >= 0\<close>.\<close>

definition strings_Contains :: "string \<Rightarrow> string \<Rightarrow> bool" where
  "strings_Contains s substr \<longleftrightarrow> 0 \<le> strings_Index s substr"

text \<open>
  \<^verbatim>\<open>strings.ReplaceAll(s, old, new)\<close> replaces the non-overlapping occurrences of \<^verbatim>\<open>old\<close>,
  scanning from the left. An empty \<^verbatim>\<open>old\<close> matches at the beginning and after every UTF-8
  sequence, as \<^verbatim>\<open>utf8.DecodeRuneInString\<close> delimits them: \<open>continuationBytes c s\<close> is the
  number of bytes of \<open>s\<close> that belong to the sequence starting with the byte \<open>c\<close>, and a byte
  that starts no well-formed sequence stands alone.
\<close>

definition inRange :: "nat \<Rightarrow> nat \<Rightarrow> string \<Rightarrow> nat \<Rightarrow> bool" where
  "inRange lo hi s i \<longleftrightarrow> i < length s \<and> lo \<le> of_char (s ! i) \<and> (of_char (s ! i) :: nat) \<le> hi"

definition continuationBytes :: "char \<Rightarrow> string \<Rightarrow> nat" where
  "continuationBytes c s =
     (let b = (of_char c :: nat);
          two = (\<lambda>lo hi. if inRange lo hi s 0 \<and> inRange 0x80 0xBF s 1 then 2 else 0);
          three = (\<lambda>lo hi. if inRange lo hi s 0 \<and> inRange 0x80 0xBF s 1 \<and> inRange 0x80 0xBF s 2
                            then 3 else 0)
      in if b < 0x80 then 0
         else if 0xC2 \<le> b \<and> b \<le> 0xDF then (if inRange 0x80 0xBF s 0 then 1 else 0)
         else if b = 0xE0 then two 0xA0 0xBF
         else if b = 0xED then two 0x80 0x9F
         else if 0xE1 \<le> b \<and> b \<le> 0xEF then two 0x80 0xBF
         else if b = 0xF0 then three 0x90 0xBF
         else if 0xF1 \<le> b \<and> b \<le> 0xF3 then three 0x80 0xBF
         else if b = 0xF4 then three 0x80 0x8F
         else 0)"

fun explodeRunes :: "string \<Rightarrow> string list" where
  "explodeRunes [] = []"
| "explodeRunes (c # s) =
     (c # take (continuationBytes c s) s) # explodeRunes (drop (continuationBytes c s) s)"

fun replaceNonEmpty :: "string \<Rightarrow> string \<Rightarrow> string \<Rightarrow> string" where
  "replaceNonEmpty old new [] = []"
| "replaceNonEmpty old new (c # s) =
     (if old \<noteq> [] \<and> prefix old (c # s)
      then new @ replaceNonEmpty old new (drop (length old - 1) s)
      else c # replaceNonEmpty old new s)"

definition strings_ReplaceAll :: "string \<Rightarrow> string \<Rightarrow> string \<Rightarrow> string" where
  "strings_ReplaceAll s old new =
     (if old = [] then new @ concat (map (\<lambda>rune. rune @ new) (explodeRunes s))
      else replaceNonEmpty old new s)"

section \<open>Externality of a type name\<close>

text \<open>
  \<^verbatim>\<open>registry.go\<close>, \<^verbatim>\<open>isExternalDependenciesOutsidePackage\<close>:
  \<^verbatim>\<open>strings.Index(fqTypeName, "."+packageName) != 0 && strings.Index(fqTypeName, ".") == 0\<close>.
  The earlier revision of the file names the same body \<^verbatim>\<open>isExternalDependencies\<close>.
\<close>

definition isExternalDependenciesOutsidePackage :: "string \<Rightarrow> string \<Rightarrow> bool" where
  "isExternalDependenciesOutsidePackage fqTypeName packageName \<longleftrightarrow>
     strings_Index fqTypeName (''.'' @ packageName) \<noteq> 0 \<and> strings_Index fqTypeName ''.'' = 0"

definition isExternalDependencies :: "string \<Rightarrow> string \<Rightarrow> bool" where
  "isExternalDependencies fqTypeName packageName \<longleftrightarrow>
     strings_Index fqTypeName (''.'' @ packageName) \<noteq> 0 \<and> strings_Index fqTypeName ''.'' = 0"

section \<open>Go path functions, as compiled for a Unix target\<close>

text \<open>
  The resolver calls \<^verbatim>\<open>path.Join\<close>, \<^verbatim>\<open>filepath.Dir\<close>, \<^verbatim>\<open>filepath.Rel\<close>, \<^verbatim>\<open>filepath.Abs\<close>,
  \<^verbatim>\<open>filepath.ToSlash\<close> and \<^verbatim>\<open>filepath.FromSlash\<close> of the Go standard library.
  \<^verbatim>\<open>filepath.Separator\<close> is a constant of the build, \<open>/\<close> or the backslash. \<^verbatim>\<open>Clean\<close>, \<^verbatim>\<open>Dir\<close>,
  \<^verbatim>\<open>Rel\<close>, \<^verbatim>\<open>Join\<close> and \<^verbatim>\<open>Abs\<close> are modelled for a build whose separator is \<open>/\<close> and that has
  no volume names, and the resolver below is that build's. The two conversions take the
  separator as an argument, so that the lines that call them can be read on either build.

  \<^verbatim>\<open>Clean\<close> works element by element: empty elements and \<open>.\<close> are dropped, \<open>..\<close> removes the
  element before it when there is one that is not itself \<open>..\<close>, is dropped at the root of a
  rooted path, and is kept otherwise. The result of an empty output is \<open>.\<close>.
\<close>

definition Separator :: char where
  "Separator = CHR ''/''"

fun splitSlash :: "string \<Rightarrow> string \<Rightarrow> string list" where
  "splitSlash cur [] = [cur]"
| "splitSlash cur (c # s) =
     (if c = CHR ''/'' then cur # splitSlash [] s else splitSlash (cur @ [c]) s)"

fun joinSlash :: "string list \<Rightarrow> string" where
  "joinSlash [] = []"
| "joinSlash [e] = e"
| "joinSlash (e # es) = e @ CHR ''/'' # joinSlash es"

definition cleanStep :: "bool \<Rightarrow> string list \<Rightarrow> string \<Rightarrow> string list" where
  "cleanStep rooted out e =
     (if e = [] \<or> e = ''.'' then out
      else if e = ''..'' then
        (if out \<noteq> [] \<and> last out \<noteq> ''..'' then butlast out
         else if \<not> rooted then out @ [''..'']
         else out)
      else out @ [e])"

definition Clean :: "string \<Rightarrow> string" where
  "Clean path =
     (if path = [] then ''.''
      else
        let rooted = (hd path = CHR ''/'');
            out = foldl (cleanStep rooted) [] (splitSlash [] path)
        in if rooted then CHR ''/'' # joinSlash out
           else if out = [] then ''.''
           else joinSlash out)"

text \<open>\<^verbatim>\<open>path.Join\<close> joins the non-empty elements with slashes and cleans the result.\<close>

definition path_Join :: "string list \<Rightarrow> string" where
  "path_Join elem =
     (let es = filter (\<lambda>e. e \<noteq> []) elem
      in if es = [] then [] else Clean (joinSlash es))"

text \<open>\<^verbatim>\<open>filepath.Join\<close> skips the leading empty elements, joins the rest and cleans.\<close>

fun filepath_Join :: "string list \<Rightarrow> string" where
  "filepath_Join [] = []"
| "filepath_Join (e # es) = (if e = [] then filepath_Join es else Clean (joinSlash (e # es)))"

text \<open>
  \<^verbatim>\<open>filepath.Dir\<close> cleans the path up to and including its last separator.
\<close>

definition filepath_Dir :: "string \<Rightarrow> string" where
  "filepath_Dir path = Clean (rev (dropWhile (\<lambda>c. c \<noteq> Separator) (rev path)))"

text \<open>
  \<^verbatim>\<open>filepath.ToSlash\<close> and \<^verbatim>\<open>filepath.FromSlash\<close> on a build whose separator is \<open>sep\<close>: the
  identity when \<open>sep\<close> is \<open>/\<close>; otherwise every separator becomes a slash, and back.
\<close>

definition filepath_ToSlash :: "char \<Rightarrow> string \<Rightarrow> string" where
  "filepath_ToSlash sep path =
     (if sep = CHR ''/'' then path
      else map (\<lambda>c. if c = sep then CHR ''/'' else c) path)"

definition filepath_FromSlash :: "char \<Rightarrow> string \<Rightarrow> string" where
  "filepath_FromSlash sep path =
     (if sep = CHR ''/'' then path
      else map (\<lambda>c. if c = CHR ''/'' then sep else c) path)"

text \<open>
  \<^verbatim>\<open>filepath.Rel\<close>: both paths are cleaned; equal paths give \<open>.\<close>; a rooted and an unrooted
  path cannot be related. The loop walks both paths element by element while the elements
  agree; \<open>relLoop\<close> returns the base element it stopped at (the next one when the target
  ran out, empty when the base ran out), the rest of the base and the rest of the target.
  A base that continues with \<open>..\<close> is an error; otherwise every remaining base element
  becomes one \<open>..\<close>, followed by the rest of the target. A base or a target that is \<open>.\<close>
  counts as empty. \<open>None\<close> is the error return.
\<close>

function relLoop :: "string \<Rightarrow> string \<Rightarrow> string \<times> string \<times> string" where
  "relLoop base targ =
     (if base = [] \<or> targ = [] then (takeWhile (\<lambda>c. c \<noteq> Separator) base, base, targ)
      else
        let be = takeWhile (\<lambda>c. c \<noteq> Separator) base;
            te = takeWhile (\<lambda>c. c \<noteq> Separator) targ
        in if te \<noteq> be then (be, base, targ)
           else relLoop (drop (Suc (length be)) base) (drop (Suc (length te)) targ))"
  by pat_completeness auto
termination
  by (relation "measure (\<lambda>(base, targ). length base)") auto

declare relLoop.simps [simp del]

definition filepath_Rel :: "string \<Rightarrow> string \<Rightarrow> string option" where
  "filepath_Rel basepath targpath =
     (let base = Clean basepath; targ = Clean targpath
      in if targ = base then Some ''.''
         else
           let base = (if base = ''.'' then [] else base);
               targ = (if targ = ''.'' then [] else targ);
               baseSlashed = (base \<noteq> [] \<and> hd base = Separator);
               targSlashed = (targ \<noteq> [] \<and> hd targ = Separator)
           in if baseSlashed \<noteq> targSlashed then None
              else
                (case relLoop base targ of
                   (be, brest, trest) \<Rightarrow>
                     if be = ''..'' then None
                     else if brest \<noteq> [] then
                       Some (''..''
                             @ concat (replicate (length (filter (\<lambda>c. c = Separator) brest)) ''/..'')
                             @ (if trest \<noteq> [] then Separator # trest else []))
                     else Some trest))"

section \<open>Data model\<close>

text \<open>
  The structs of \<^verbatim>\<open>registry.go\<close>. \<^verbatim>\<open>data.File\<close> and \<^verbatim>\<open>data.Dependency\<close> are declared in
  package \<^verbatim>\<open>data\<close>; the resolver reads \<^verbatim>\<open>TSFileName\<close> and \<^verbatim>\<open>ExternalDependingTypes\<close> and
  appends to \<^verbatim>\<open>Dependencies\<close>. Every other field of a file is the extension part of the
  record.
\<close>

record MapEntryType =
  Type :: string
  IsExternal :: bool

record TypeInformation =
  FullyQualifiedName :: string
  Package :: string
  File :: string
  PackageIdentifier :: string
  LocalIdentifier :: string
  ProtoType :: int
  IsMapEntry :: bool
  KeyType :: "MapEntryType option"
  ValueType :: "MapEntryType option"

record Registry =
  Types :: "string \<rightharpoonup> TypeInformation"
  FilesToGenerate :: "string \<rightharpoonup> bool"
  TSImportRoot :: string
  TSImportRootAlias :: string

record Dependency =
  ModuleIdentifier :: string
  SourceFile :: string

record data_File =
  TSFileName :: string
  ExternalDependingTypes :: "string list"
  Dependencies :: "Dependency list"

text \<open>
  What the resolver takes from outside: the file system behind \<^verbatim>\<open>filepath.Glob\<close> (\<open>None\<close>
  is its error return, for a malformed pattern), the working directory behind
  \<^verbatim>\<open>filepath.Abs\<close> (\<open>None\<close> when \<^verbatim>\<open>os.Getwd\<close> fails), and the two naming functions of package
  \<^verbatim>\<open>data\<close>.
\<close>

record environment =
  Glob :: "string \<Rightarrow> string list option"
  Getwd :: "string option"
  GetTSFileName :: "string \<Rightarrow> string"
  GetModuleName :: "string \<Rightarrow> string \<Rightarrow> string"

definition filepath_Abs :: "'e environment_scheme \<Rightarrow> string \<Rightarrow> string option" where
  "filepath_Abs env path =
     (if path \<noteq> [] \<and> hd path = CHR ''/'' then Some (Clean path)
      else (case Getwd env of None \<Rightarrow> None | Some wd \<Rightarrow> Some (filepath_Join [wd, path])))"

text \<open>
  The ways a run ends other than with \<^verbatim>\<open>nil\<close>: the error values the code builds, and the
  two run-time panics it can raise (indexing an empty slice, slicing with a negative
  bound). \<open>errorMessage\<close> is the text the code formats for an error value, without the
  text of a wrapped cause; a panic is not an error value.
\<close>

datatype failure =
    CannotFindTypeInfo string
  | GlobLookupError string
  | AbsLookupError string
  | RelLookupError string
  | RelPathError string string
  | PanicIndexOutOfRange
  | PanicSliceBounds

fun errorMessage :: "failure \<Rightarrow> string option" where
  "errorMessage (CannotFindTypeInfo typeName) =
     Some (''cannot find type info for '' @ typeName @ '', $v'')"
| "errorMessage (GlobLookupError file) =
     Some (''error looking up real path for proto file '' @ file)"
| "errorMessage (AbsLookupError base) =
     Some (''error looking up absolute directory with base dir: '' @ base)"
| "errorMessage (RelLookupError absoluteTsFileName) =
     Some (''error looking up relative path for source file '' @ absoluteTsFileName)"
| "errorMessage (RelPathError base target) =
     Some (''error getting relative path between for '' @ base @ '', '' @ target)"
| "errorMessage PanicIndexOutOfRange = None"
| "errorMessage PanicSliceBounds = None"

section \<open>The dependency resolver\<close>

definition IsFileToGenerate :: "'r Registry_scheme \<Rightarrow> string \<Rightarrow> bool" where
  "IsFileToGenerate r name = (case FilesToGenerate r name of None \<Rightarrow> False | Some result \<Rightarrow> result)"

text \<open>
  Lines 204 to 209, on a build whose separator is \<open>sep\<close>: the path that \<^verbatim>\<open>filepath.Rel\<close>
  returned is put in slash form, gets \<open>./\<close> in front unless it starts with \<open>../\<close>, and is
  converted back with \<^verbatim>\<open>filepath.FromSlash\<close>.
\<close>

definition relativeSourceFile :: "char \<Rightarrow> string \<Rightarrow> string" where
  "relativeSourceFile sep sourceFile =
     (let slashSourceFile = filepath_ToSlash sep sourceFile;
          slashSourceFile =
            (if strings_Index slashSourceFile ''../'' \<noteq> 0 then ''./'' @ slashSourceFile
             else slashSourceFile)
      in filepath_FromSlash sep slashSourceFile)"

text \<open>
  \<^verbatim>\<open>collectExternalDependenciesFromData\<close>, lines 165 to 210: the import path of a target
  that has no entry yet, before its suffix is removed.
\<close>

definition sourceFilePath ::
  "'e environment_scheme \<Rightarrow> 'r Registry_scheme \<Rightarrow> 'f data_File_scheme \<Rightarrow> 't TypeInformation_scheme
   \<Rightarrow> failure + string" where
  "sourceFilePath env r fileData typeInfo =
     (let base = TSFileName fileData;
          target = GetTSFileName env (File typeInfo)
      in if \<not> IsFileToGenerate r (File typeInfo) then
           (case Glob env (path_Join [TSImportRoot r, ''**'', File typeInfo]) of
              None \<Rightarrow> Inl (GlobLookupError (File typeInfo))
            | Some matches \<Rightarrow>
                (case matches of
                   [] \<Rightarrow> Inl PanicIndexOutOfRange
                 | m # _ \<Rightarrow>
                     let absoluteTsFileName = GetTSFileName env m
                     in if TSImportRootAlias r \<noteq> [] then
                          Inr (strings_ReplaceAll absoluteTsFileName (TSImportRoot r) (TSImportRootAlias r))
                        else
                          (case filepath_Abs env base of
                             None \<Rightarrow> Inl (AbsLookupError base)
                           | Some absBase \<Rightarrow>
                               (case filepath_Rel (filepath_Dir absBase) absoluteTsFileName of
                                  None \<Rightarrow> Inl (RelLookupError absoluteTsFileName)
                                | Some sourceFile \<Rightarrow> Inr sourceFile))))
         else
           (case filepath_Rel (filepath_Dir base) target of
              None \<Rightarrow> Inl (RelPathError base target)
            | Some sourceFile \<Rightarrow> Inr (relativeSourceFile Separator sourceFile)))"

text \<open>
  Lines 212 to 214: \<^verbatim>\<open>sourceFile[0:strings.LastIndex(sourceFile, ".ts")]\<close>. The slice
  panics when the bound is negative.
\<close>

definition removeTsSuffix :: "string \<Rightarrow> failure + string" where
  "removeTsSuffix sourceFile =
     (let suffixIndex = strings_LastIndex sourceFile ''.ts''
      in if suffixIndex < 0 \<or> int (length sourceFile) < suffixIndex then Inl PanicSliceBounds
         else Inr (take (nat suffixIndex) sourceFile))"

text \<open>Lines 165 to 219: the record stored for a target that has no entry yet.\<close>

definition newDependency ::
  "'e environment_scheme \<Rightarrow> 'r Registry_scheme \<Rightarrow> 'f data_File_scheme \<Rightarrow> 't TypeInformation_scheme
   \<Rightarrow> failure + Dependency" where
  "newDependency env r fileData typeInfo =
     (case sourceFilePath env r fileData typeInfo of
        Inl e \<Rightarrow> Inl e
      | Inr sourceFile \<Rightarrow>
          (case removeTsSuffix sourceFile of
             Inl e \<Rightarrow> Inl e
           | Inr stripped \<Rightarrow>
               Inr \<lparr>ModuleIdentifier = GetModuleName env (Package typeInfo) (File typeInfo),
                    SourceFile = stripped\<rparr>))"

text \<open>
  The earlier revision (lines 117 to 126 there) takes the target relative to the file name
  itself and stores the result as it is.
\<close>

definition newDependency_rev0 ::
  "'e environment_scheme \<Rightarrow> 'f data_File_scheme \<Rightarrow> 't TypeInformation_scheme \<Rightarrow> failure + Dependency" where
  "newDependency_rev0 env fileData typeInfo =
     (let base = TSFileName fileData;
          target = GetTSFileName env (File typeInfo)
      in case filepath_Rel base target of
           None \<Rightarrow> Inl (RelPathError base target)
         | Some relPath \<Rightarrow>
             Inr \<lparr>ModuleIdentifier = GetModuleName env (Package typeInfo) (File typeInfo),
                  SourceFile = relPath\<rparr>)"

text \<open>
  The loop over \<^verbatim>\<open>fileData.ExternalDependingTypes\<close>, the same in both revisions but for the
  record it builds (the argument \<open>mk\<close>). The Go map \<^verbatim>\<open>dependencies\<close> is an association list
  in insertion order; a key is looked up before it is inserted, so keys stay distinct.
\<close>

fun collectTypes ::
  "('t TypeInformation_scheme \<Rightarrow> failure + Dependency) \<Rightarrow> (string \<rightharpoonup> 't TypeInformation_scheme)
   \<Rightarrow> (string \<times> Dependency) list \<Rightarrow> string list \<Rightarrow> failure + (string \<times> Dependency) list" where
  "collectTypes mk types dependencies [] = Inr dependencies"
| "collectTypes mk types dependencies (typeName # rest) =
     (case types typeName of
        None \<Rightarrow> Inl (CannotFindTypeInfo typeName)
      | Some typeInfo \<Rightarrow>
          let identifier = Package typeInfo @ ''|'' @ File typeInfo
          in case map_of dependencies identifier of
               Some _ \<Rightarrow> collectTypes mk types dependencies rest
             | None \<Rightarrow>
                 (case mk typeInfo of
                    Inl e \<Rightarrow> Inl e
                  | Inr dependency \<Rightarrow>
                      collectTypes mk types (dependencies @ [(identifier, dependency)]) rest))"

text \<open>
  One iteration of the outer loop: the file with the collected records appended. Go ranges
  over the map \<^verbatim>\<open>dependencies\<close> in an unspecified order; the model appends in insertion
  order, and the theorems below speak only of properties that no reordering changes.
\<close>

definition collectFile ::
  "('f data_File_scheme \<Rightarrow> 't TypeInformation_scheme \<Rightarrow> failure + Dependency)
   \<Rightarrow> (string \<rightharpoonup> 't TypeInformation_scheme) \<Rightarrow> 'f data_File_scheme \<Rightarrow> failure + 'f data_File_scheme" where
  "collectFile mk types fileData =
     (case collectTypes (mk fileData) types [] (ExternalDependingTypes fileData) of
        Inl e \<Rightarrow> Inl e
      | Inr dependencies \<Rightarrow>
          Inr (fileData\<lparr>Dependencies := Dependencies fileData @ map snd dependencies\<rparr>))"

text \<open>
  The outer loop. The argument is the files in the order in which the \<^verbatim>\<open>range\<close> over
  \<^verbatim>\<open>filesData\<close> visits them. The files are changed in place, so a run that fails leaves
  the files visited before the failure changed: the result is the files after the run
  together with the error, \<open>None\<close> for \<^verbatim>\<open>nil\<close>.
\<close>

fun collectFiles ::
  "('f data_File_scheme \<Rightarrow> 't TypeInformation_scheme \<Rightarrow> failure + Dependency)
   \<Rightarrow> (string \<rightharpoonup> 't TypeInformation_scheme) \<Rightarrow> 'f data_File_scheme list
   \<Rightarrow> 'f data_File_scheme list \<times> failure option" where
  "collectFiles mk types [] = ([], None)"
| "collectFiles mk types (fileData # rest) =
     (case collectFile mk types fileData of
        Inl e \<Rightarrow> (fileData # rest, Some e)
      | Inr fileData' \<Rightarrow>
          (case collectFiles mk types rest of
             (rest', result) \<Rightarrow> (fileData' # rest', result)))"

text \<open>
  The state of a run: the registry, which the method receives by pointer, and the files.
\<close>

record 'f run =
  registry :: Registry
  filesData :: "'f data_File_scheme list"
  err :: "failure option"

definition collectExternalDependenciesFromData ::
  "'e environment_scheme \<Rightarrow> Registry \<Rightarrow> 'f data_File_scheme list \<Rightarrow> 'f run" where
  "collectExternalDependenciesFromData env r files =
     (case collectFiles (newDependency env r) (Types r) files of
        (files', result) \<Rightarrow> \<lparr>registry = r, filesData = files', err = result\<rparr>)"

definition collectExternalDependenciesFromData_rev0 ::
  "'e environment_scheme \<Rightarrow> Registry \<Rightarrow> 'f data_File_scheme list \<Rightarrow> 'f run" where
  "collectExternalDependenciesFromData_rev0 env r files =
     (case collectFiles (newDependency_rev0 env) (Types r) files of
        (files', result) \<Rightarrow> \<lparr>registry = r, filesData = files', err = result\<rparr>)"

section \<open>Quantities of the specification\<close>

text \<open>
  The keys \<open>package|file\<close> under which the loop stores the records of a list of type names,
  and the pairs (package, declaring file) the names resolve to: their numbers of distinct
  members are the number of records the loop builds and the \<open>M\<close> of the specification.
\<close>

definition dependencyKeys :: "(string \<rightharpoonup> 't TypeInformation_scheme) \<Rightarrow> string list \<Rightarrow> string list" where
  "dependencyKeys types names =
     concat (map (\<lambda>n. case types n of
                         None \<Rightarrow> []
                       | Some typeInfo \<Rightarrow> [Package typeInfo @ ''|'' @ File typeInfo]) names)"

definition referencedPairs ::
  "(string \<rightharpoonup> 't TypeInformation_scheme) \<Rightarrow> string list \<Rightarrow> (string \<times> string) list" where
  "referencedPairs types names =
     concat (map (\<lambda>n. case types n of
                         None \<Rightarrow> []
                       | Some typeInfo \<Rightarrow> [(Package typeInfo, File typeInfo)]) names)"


section \<open>Sample inputs\<close>

text \<open>
  Concrete inputs for the evaluations below. The naming functions of package \<^verbatim>\<open>data\<close> are
  arguments of the model; the samples turn \<open>x.proto\<close> into \<open>x.pb.ts\<close> and name a module by
  package and file.
\<close>

definition sampleTSFileName :: "string \<Rightarrow> string" where
  "sampleTSFileName fileName =
     (if suffix ''.proto'' fileName then take (length fileName - 6) fileName else fileName)
     @ ''.pb.ts''"

definition sampleModuleName :: "string \<Rightarrow> string \<Rightarrow> string" where
  "sampleModuleName packageName fileName = packageName @ '':'' @ fileName"

definition sampleEnv :: "(string \<Rightarrow> string list option) \<Rightarrow> environment" where
  "sampleEnv glob =
     \<lparr>Glob = glob, Getwd = Some ''/work'', GetTSFileName = sampleTSFileName,
      GetModuleName = sampleModuleName\<rparr>"

definition sampleType :: "string \<Rightarrow> string \<Rightarrow> string \<Rightarrow> TypeInformation" where
  "sampleType name packageName file =
     \<lparr>FullyQualifiedName = name, Package = packageName, File = file, PackageIdentifier = [],
      LocalIdentifier = [], ProtoType = 11, IsMapEntry = False, KeyType = None,
      ValueType = None\<rparr>"

definition sampleFile :: "string \<Rightarrow> string list \<Rightarrow> data_File" where
  "sampleFile tsFileName names =
     \<lparr>TSFileName = tsFileName, ExternalDependingTypes = names, Dependencies = []\<rparr>"

definition sampleRegistry ::
  "(string \<times> TypeInformation) list \<Rightarrow> string list \<Rightarrow> string \<Rightarrow> string \<Rightarrow> Registry" where
  "sampleRegistry entries generate root alias =
     \<lparr>Types = map_of entries, FilesToGenerate = map_of (map (\<lambda>f. (f, True)) generate),
      TSImportRoot = root, TSImportRootAlias = alias\<rparr>"

definition exampleGlob :: "string \<Rightarrow> string list option" where
  "exampleGlob pattern =
     (if pattern = ''/gen/**/gen/a.proto'' then Some [''/gen/ts/gen/a.proto'']
      else if pattern = ''/gen/**/a[.proto'' then None
      else Some [])"

definition exampleEnv :: environment where
  "exampleEnv = sampleEnv exampleGlob"

definition exampleRegistry :: "string \<Rightarrow> Registry" where
  "exampleRegistry alias =
     sampleRegistry
       [(''.p1.Foo'', sampleType ''.p1.Foo'' ''p1'' ''a.proto''),
        (''.p1.Bar'', sampleType ''.p1.Bar'' ''p1'' ''a.proto''),
        (''.p3.Baz'', sampleType ''.p3.Baz'' ''p3'' ''sub/c.proto''),
        (''.p4.Odd'', sampleType ''.p4.Odd'' ''p4'' ''a[.proto''),
        (''.p5.Gen'', sampleType ''.p5.Gen'' ''p5'' ''gen/a.proto''),
        (''.p6.Lost'', sampleType ''.p6.Lost'' ''p6'' ''lost.proto'')]
       [''a.proto'', ''b.proto'', ''sub/c.proto''] ''/gen'' alias"

definition collidingRegistry :: Registry where
  "collidingRegistry =
     sampleRegistry
       [(''.x.A'', sampleType ''.x.A'' ''a|b'' ''c.proto''),
        (''.y.B'', sampleType ''.y.B'' ''a'' ''b|c.proto'')]
       [''c.proto'', ''b|c.proto'', ''m.proto''] ''/gen'' []"

section \<open>Paths as element lists\<close>

text \<open>
  The form of a cleaned path, for the proofs about \<^verbatim>\<open>Clean\<close>, \<^verbatim>\<open>Rel\<close> and \<^verbatim>\<open>Join\<close>: a proper
  element is a name other than \<open>.\<close> and \<open>..\<close>; the elements of a cleaned path are proper,
  after leading \<open>..\<close> elements when the path is not rooted; a cleaned path is its elements
  joined by slashes, behind a slash when rooted, and \<open>.\<close> when it is unrooted and empty.
\<close>

definition properElement :: "string \<Rightarrow> bool" where
  "properElement e \<longleftrightarrow> e \<noteq> [] \<and> e \<noteq> ''.'' \<and> e \<noteq> ''..'' \<and> CHR ''/'' \<notin> set e"

definition cleanElements :: "bool \<Rightarrow> string list \<Rightarrow> bool" where
  "cleanElements rooted es \<longleftrightarrow>
     list_all properElement (dropWhile (\<lambda>e. \<not> rooted \<and> e = ''..'') es)"

definition renderPath :: "bool \<Rightarrow> string list \<Rightarrow> string" where
  "renderPath rooted es =
     (if rooted then CHR ''/'' # joinSlash es else if es = [] then ''.'' else joinSlash es)"

section \<open>Facts about the string functions\<close>

lemma indexFrom_lower: "indexFrom i s substr = -1 \<or> int i \<le> indexFrom i s substr"
  by (induction s arbitrary: i) (auto, force)

lemma indexFrom_eq_start: "indexFrom i s substr = int i \<longleftrightarrow> prefix substr s"
proof (cases s)
  case Nil
  then show ?thesis by auto
next
  case (Cons c s')
  have "indexFrom (Suc i) s' substr \<noteq> int i"
    using indexFrom_lower [of "Suc i" s' substr] by auto
  with Cons show ?thesis by auto
qed

lemma strings_Index_zero: "strings_Index s substr = 0 \<longleftrightarrow> prefix substr s"
  using indexFrom_eq_start [of 0 s substr] by (simp add: strings_Index_def)

lemma occurs_drop:
  "(\<exists>u v. s = u @ substr @ v) \<longleftrightarrow> (\<exists>k\<le>length s. prefix substr (drop k s))"
proof
  assume "\<exists>u v. s = u @ substr @ v"
  then obtain u v where s: "s = u @ substr @ v" by auto
  have "length u \<le> length s" "prefix substr (drop (length u) s)" by (simp_all add: s)
  then show "\<exists>k\<le>length s. prefix substr (drop k s)" by blast
next
  assume "\<exists>k\<le>length s. prefix substr (drop k s)"
  then obtain k v where "drop k s = substr @ v" by (auto simp: prefix_def)
  then have "s = take k s @ substr @ v" by (metis append_take_drop_id)
  then show "\<exists>u v. s = u @ substr @ v" by blast
qed

lemma indexFrom_absent:
  "indexFrom i s substr = -1 \<longleftrightarrow> \<not> (\<exists>k\<le>length s. prefix substr (drop k s))"
proof (induction s arbitrary: i)
  case Nil
  then show ?case by auto
next
  case (Cons c s)
  have split: "(\<exists>k\<le>length (c # s). prefix substr (drop k (c # s)))
        \<longleftrightarrow> prefix substr (c # s) \<or> (\<exists>k\<le>length s. prefix substr (drop k s))"
  proof
    assume "\<exists>k\<le>length (c # s). prefix substr (drop k (c # s))"
    then obtain k where k: "k \<le> length (c # s)" "prefix substr (drop k (c # s))" by blast
    then show "prefix substr (c # s) \<or> (\<exists>k\<le>length s. prefix substr (drop k s))"
      by (cases k) auto
  next
    assume "prefix substr (c # s) \<or> (\<exists>k\<le>length s. prefix substr (drop k s))"
    then show "\<exists>k\<le>length (c # s). prefix substr (drop k (c # s))"
    proof
      assume "prefix substr (c # s)"
      then have "0 \<le> length (c # s) \<and> prefix substr (drop 0 (c # s))" by simp
      then show ?thesis by blast
    next
      assume "\<exists>k\<le>length s. prefix substr (drop k s)"
      then obtain k where "k \<le> length s" "prefix substr (drop k s)" by blast
      then have "Suc k \<le> length (c # s) \<and> prefix substr (drop (Suc k) (c # s))" by simp
      then show ?thesis by blast
    qed
  qed
  show ?case
  proof (cases "prefix substr (c # s)")
    case True
    then show ?thesis using split by simp
  next
    case False
    then show ?thesis using split Cons.IH [of "Suc i"] by simp
  qed
qed

lemma strings_Contains_iff: "strings_Contains s substr \<longleftrightarrow> (\<exists>u v. s = u @ substr @ v)"
proof -
  have "0 \<le> indexFrom 0 s substr \<longleftrightarrow> indexFrom 0 s substr \<noteq> -1"
    using indexFrom_lower [of 0 s substr] by auto
  then show ?thesis
    unfolding strings_Contains_def strings_Index_def occurs_drop
    by (simp add: indexFrom_absent)
qed

lemma lastIndexFrom_none:
  "\<forall>k\<le>length s. \<not> prefix substr (drop k s) \<Longrightarrow> lastIndexFrom i found s substr = found"
proof (induction s arbitrary: i found)
  case Nil
  then show ?case by auto
next
  case (Cons c s)
  have "\<not> prefix substr (c # s)" using Cons.prems [rule_format, of 0] by simp
  moreover have "\<forall>k\<le>length s. \<not> prefix substr (drop k s)"
    using Cons.prems by (metis Suc_le_mono drop_Suc_Cons length_Cons)
  ultimately show ?case using Cons.IH by simp
qed

lemma lastIndexFrom_last:
  "k \<le> length s \<Longrightarrow> prefix substr (drop k s)
   \<Longrightarrow> \<forall>j. k < j \<and> j \<le> length s \<longrightarrow> \<not> prefix substr (drop j s)
   \<Longrightarrow> lastIndexFrom i found s substr = int (i + k)"
proof (induction s arbitrary: i found k)
  case Nil
  then show ?case by auto
next
  case (Cons c s)
  show ?case
  proof (cases k)
    case 0
    have "\<forall>j\<le>length s. \<not> prefix substr (drop j s)"
    proof (intro allI impI)
      fix j assume "j \<le> length s"
      then show "\<not> prefix substr (drop j s)"
        using Cons.prems(3) [rule_format, of "Suc j"] 0 by simp
    qed
    then have "lastIndexFrom (Suc i) (int i) s substr = int i"
      by (rule lastIndexFrom_none)
    with 0 Cons.prems(2) show ?thesis by simp
  next
    case (Suc k')
    have a: "k' \<le> length s" using Cons.prems(1) Suc by simp
    have b: "prefix substr (drop k' s)" using Cons.prems(2) Suc by simp
    have c: "\<forall>j. k' < j \<and> j \<le> length s \<longrightarrow> \<not> prefix substr (drop j s)"
    proof (intro allI impI)
      fix j assume "k' < j \<and> j \<le> length s"
      then show "\<not> prefix substr (drop j s)"
        using Cons.prems(3) [rule_format, of "Suc j"] Suc by simp
    qed
    have "lastIndexFrom (Suc i) (if prefix substr (c # s) then int i else found) s substr
          = int (Suc i + k')"
      by (rule Cons.IH [OF a b c])
    with Suc show ?thesis by simp
  qed
qed

lemma strings_LastIndex_absent:
  "\<not> strings_Contains s substr \<Longrightarrow> strings_LastIndex s substr = -1"
  unfolding strings_LastIndex_def strings_Contains_iff occurs_drop
  by (rule lastIndexFrom_none) simp

lemma strings_LastIndex_present:
  assumes "strings_Contains s substr"
  shows "\<exists>k\<le>length s. strings_LastIndex s substr = int k \<and> prefix substr (drop k s)"
proof -
  let ?P = "\<lambda>k. k \<le> length s \<and> prefix substr (drop k s)"
  from assms obtain k0 where "?P k0" unfolding strings_Contains_iff occurs_drop by blast
  moreover have "\<forall>y. ?P y \<longrightarrow> y \<le> length s" by simp
  ultimately have g: "?P (Greatest ?P)" and m: "\<forall>y. ?P y \<longrightarrow> y \<le> Greatest ?P"
    using GreatestI_nat [of ?P k0 "length s"] Greatest_le_nat [of ?P _ "length s"] by auto
  have "\<forall>j. Greatest ?P < j \<and> j \<le> length s \<longrightarrow> \<not> prefix substr (drop j s)"
    using m by (meson not_less)
  with g have "lastIndexFrom 0 (-1) s substr = int (0 + Greatest ?P)"
    by (intro lastIndexFrom_last) auto
  with g show ?thesis unfolding strings_LastIndex_def by auto
qed

lemma strings_LastIndex_suffix:
  assumes "substr \<noteq> []"
  shows "strings_LastIndex (q @ substr) substr = int (length q)"
proof -
  have "\<forall>j. length q < j \<and> j \<le> length (q @ substr) \<longrightarrow> \<not> prefix substr (drop j (q @ substr))"
  proof (intro allI impI)
    fix j assume j: "length q < j \<and> j \<le> length (q @ substr)"
    then have "length (drop j (q @ substr)) < length substr"
      by (auto simp: less_diff_conv2)
    then show "\<not> prefix substr (drop j (q @ substr))"
      using prefix_length_le by (metis not_le)
  qed
  then have "lastIndexFrom 0 (-1) (q @ substr) substr = int (0 + length q)"
    by (intro lastIndexFrom_last) auto
  then show ?thesis by (simp add: strings_LastIndex_def)
qed

section \<open>Facts about the suffix removal\<close>

lemma removeTsSuffix_panics:
  "removeTsSuffix sourceFile = Inl PanicSliceBounds \<longleftrightarrow> \<not> strings_Contains sourceFile ''.ts''"
proof (cases "strings_Contains sourceFile ''.ts''")
  case True
  from strings_LastIndex_present [OF True] show ?thesis
    using True by (auto simp: removeTsSuffix_def Let_def)
next
  case False
  from strings_LastIndex_absent [OF False] show ?thesis
    using False by (simp add: removeTsSuffix_def)
qed


lemma removeTsSuffix_Inr:
  assumes "removeTsSuffix sourceFile = Inr stripped"
  shows "\<exists>k\<le>length sourceFile. stripped = take k sourceFile \<and> prefix ''.ts'' (drop k sourceFile)"
proof -
  have "removeTsSuffix sourceFile \<noteq> Inl PanicSliceBounds" using assms by simp
  then have occ: "strings_Contains sourceFile ''.ts''"
    using removeTsSuffix_panics [of sourceFile] by blast
  from strings_LastIndex_present [OF occ] assms show ?thesis
    by (auto simp: removeTsSuffix_def Let_def split: if_splits)
qed

lemma removeTsSuffix_suffix: "removeTsSuffix (q @ ''.ts'') = Inr q"
  using strings_LastIndex_suffix [of "''.ts''" q] by (simp add: removeTsSuffix_def)

lemma removeTsSuffix_keeps_dot_sep:
  assumes "removeTsSuffix sourceFile = Inr stripped" "prefix [CHR ''.'', sep] sourceFile"
    and "sep \<noteq> CHR ''t''" "sep \<noteq> CHR ''.''"
  shows "prefix [CHR ''.'', sep] stripped"
proof -
  from assms(2) obtain x where p: "sourceFile = CHR ''.'' # sep # x"
    by (auto simp: prefix_def)
  from removeTsSuffix_Inr [OF assms(1)] obtain k where
    k: "stripped = take k sourceFile" "prefix ''.ts'' (drop k sourceFile)" by blast
  have "2 \<le> k"
  proof (rule ccontr)
    assume "\<not> 2 \<le> k"
    then have "k = 0 \<or> k = 1" by arith
    with k(2) p assms(3,4) show False by auto
  qed
  then obtain j where "k = Suc (Suc j)" by (metis add_2_eq_Suc le_Suc_ex)
  with k(1) p show ?thesis by simp
qed

lemma removeTsSuffix_keeps_dot_dot_sep:
  assumes "removeTsSuffix sourceFile = Inr stripped" "prefix [CHR ''.'', CHR ''.'', sep] sourceFile"
    and "sep \<noteq> CHR ''t''" "sep \<noteq> CHR ''.''"
  shows "prefix [CHR ''.'', CHR ''.'', sep] stripped"
proof -
  from assms(2) obtain x where p: "sourceFile = CHR ''.'' # CHR ''.'' # sep # x"
    by (auto simp: prefix_def)
  from removeTsSuffix_Inr [OF assms(1)] obtain k where
    k: "stripped = take k sourceFile" "prefix ''.ts'' (drop k sourceFile)" by blast
  have "3 \<le> k"
  proof (rule ccontr)
    assume "\<not> 3 \<le> k"
    then have "k = 0 \<or> k = 1 \<or> k = 2" by arith
    with k(2) p assms(3,4) show False by (auto simp: numeral_2_eq_2)
  qed
  then obtain j where "k = Suc (Suc (Suc j))"
    by (metis numeral_3_eq_3 le_Suc_ex add_Suc plus_nat.add_0)
  with k(1) p show ?thesis by simp
qed

lemma relativeSourceFile_unfold:
  "relativeSourceFile sep rel =
     filepath_FromSlash sep
       (if prefix ''../'' (filepath_ToSlash sep rel) then filepath_ToSlash sep rel
        else ''./'' @ filepath_ToSlash sep rel)"
  by (simp add: relativeSourceFile_def Let_def strings_Index_zero)

lemma relativeSourceFile_prefix:
  "prefix [CHR ''.'', sep] (relativeSourceFile sep rel)
   \<or> prefix [CHR ''.'', CHR ''.'', sep] (relativeSourceFile sep rel)"
proof (cases "prefix ''../'' (filepath_ToSlash sep rel)")
  case True
  then obtain y where "filepath_ToSlash sep rel = CHR ''.'' # CHR ''.'' # CHR ''/'' # y"
    by (auto simp: prefix_def)
  then have "prefix [CHR ''.'', CHR ''.'', sep] (relativeSourceFile sep rel)"
    unfolding relativeSourceFile_unfold by (simp add: filepath_FromSlash_def)
  then show ?thesis by simp
next
  case False
  then have "prefix [CHR ''.'', sep] (relativeSourceFile sep rel)"
    unfolding relativeSourceFile_unfold by (simp add: filepath_FromSlash_def)
  then show ?thesis by simp
qed

section \<open>Facts about the loops\<close>

lemma takeWhile_stop: "c \<notin> set p \<Longrightarrow> takeWhile (\<lambda>x. x \<noteq> c) (p @ c # f) = p"
  by (induction p) auto

lemma collectTypes_keys:
  "collectTypes mk types deps names = Inr deps' \<Longrightarrow> distinct (map fst deps)
   \<Longrightarrow> distinct (map fst deps')
       \<and> set (map fst deps') = set (map fst deps) \<union> set (dependencyKeys types names)
       \<and> (\<forall>n\<in>set names. types n \<noteq> None)"
proof (induction names arbitrary: deps)
  case Nil
  then show ?case by (simp add: dependencyKeys_def)
next
  case (Cons typeName rest)
  from Cons.prems(1) obtain typeInfo where ti: "types typeName = Some typeInfo"
    by (cases "types typeName") auto
  let ?id = "Package typeInfo @ ''|'' @ File typeInfo"
  have keys: "dependencyKeys types (typeName # rest) = ?id # dependencyKeys types rest"
    by (simp add: dependencyKeys_def ti)
  show ?case
  proof (cases "map_of deps ?id")
    case None
    then have fresh: "?id \<notin> set (map fst deps)" by (simp add: map_of_eq_None_iff)
    from Cons.prems(1) ti None obtain d where
      rec: "collectTypes mk types (deps @ [(?id, d)]) rest = Inr deps'"
      by (cases "mk typeInfo") (auto simp: Let_def)
    have "distinct (map fst (deps @ [(?id, d)]))" using Cons.prems(2) fresh by simp
    from Cons.IH [OF rec this] show ?thesis using ti keys by auto
  next
    case (Some d)
    then have known: "?id \<in> set (map fst deps)"
      by (metis map_of_eq_None_iff option.distinct(1) set_map)
    from Cons.prems(1) ti Some have rec: "collectTypes mk types deps rest = Inr deps'"
      by (simp add: Let_def)
    from Cons.IH [OF rec Cons.prems(2)] show ?thesis using ti keys known by auto
  qed
qed

lemma collectTypes_length:
  assumes "collectTypes mk types [] names = Inr deps'"
  shows "length deps' = length (remdups (dependencyKeys types names))"
proof -
  from collectTypes_keys [OF assms] have d: "distinct (map fst deps')"
    and s: "set (map fst deps') = set (dependencyKeys types names)" by simp_all
  have "length deps' = length (map fst deps')" by simp
  also have "\<dots> = card (set (map fst deps'))" using d by (simp only: distinct_card)
  also have "\<dots> = length (remdups (dependencyKeys types names))"
    by (simp only: s length_remdups_card_conv)
  finally show ?thesis .
qed

lemma keys_of_pairs:
  "dependencyKeys types names = map (\<lambda>(p, f). p @ ''|'' @ f) (referencedPairs types names)"
  unfolding dependencyKeys_def referencedPairs_def
  by (induction names) (auto split: option.splits)

lemma key_inj:
  assumes "p @ ''|'' @ f = p' @ ''|'' @ f'" "CHR ''|'' \<notin> set p" "CHR ''|'' \<notin> set p'"
  shows "p = p' \<and> f = f'"
proof -
  have "takeWhile (\<lambda>c. c \<noteq> CHR ''|'') (p @ ''|'' @ f) = p"
    "takeWhile (\<lambda>c. c \<noteq> CHR ''|'') (p' @ ''|'' @ f') = p'"
    using assms(2,3) by (simp_all add: takeWhile_stop)
  with assms(1) have "p = p'" by simp
  with assms(1) show ?thesis by simp
qed

lemma keys_le_pairs:
  "length (remdups (dependencyKeys types names)) \<le> length (remdups (referencedPairs types names))"
  unfolding keys_of_pairs by (simp add: length_remdups_card_conv card_image_le)

lemma keys_eq_pairs:
  assumes "\<forall>(p, f)\<in>set (referencedPairs types names). CHR ''|'' \<notin> set p"
  shows "length (remdups (dependencyKeys types names)) = length (remdups (referencedPairs types names))"
proof -
  have "inj_on (\<lambda>(p, f). p @ ''|'' @ f) (set (referencedPairs types names))"
  proof (rule inj_onI)
    fix x y
    assume x: "x \<in> set (referencedPairs types names)" and y: "y \<in> set (referencedPairs types names)"
      and e: "(case x of (p, f) \<Rightarrow> p @ ''|'' @ f) = (case y of (p, f) \<Rightarrow> p @ ''|'' @ f)"
    obtain p f p' f' where xy: "x = (p, f)" "y = (p', f')" by (cases x, cases y) auto
    from assms x y xy have "CHR ''|'' \<notin> set p" "CHR ''|'' \<notin> set p'" by auto
    with e xy key_inj [of p f p' f'] show "x = y" by simp
  qed
  then show ?thesis
    unfolding keys_of_pairs by (simp add: length_remdups_card_conv card_image)
qed

lemma collectFile_appends:
  assumes "collectFile mk types fileData = Inr fileData'"
  shows "\<exists>new. fileData' = fileData\<lparr>Dependencies := Dependencies fileData @ new\<rparr>
           \<and> length new = length (remdups (dependencyKeys types (ExternalDependingTypes fileData)))"
proof -
  from assms obtain deps where
    c: "collectTypes (mk fileData) types [] (ExternalDependingTypes fileData) = Inr deps"
    and f: "fileData' = fileData\<lparr>Dependencies := Dependencies fileData @ map snd deps\<rparr>"
    by (auto simp: collectFile_def split: sum.splits)
  from collectTypes_length [OF c] f show ?thesis by auto
qed

lemma collectFiles_frame:
  "list_all2 (\<lambda>f f'. \<exists>new. f' = f\<lparr>Dependencies := Dependencies f @ new\<rparr>)
     files (fst (collectFiles mk types files))"
proof (induction files)
  case Nil
  then show ?case by simp
next
  case (Cons fileData rest)
  have same: "\<And>f::'a data_File_scheme. \<exists>new. f = f\<lparr>Dependencies := Dependencies f @ new\<rparr>"
    by (rule exI [of _ "[]"]) simp
  show ?case
  proof (cases "collectFile mk types fileData")
    case (Inl e)
    have "list_all2 (\<lambda>f f'. \<exists>new. f' = f\<lparr>Dependencies := Dependencies f @ new\<rparr>)
            (fileData # rest) (fileData # rest)"
      using same by (simp add: list_all2_refl)
    with Inl show ?thesis by simp
  next
    case (Inr fileData')
    from collectFile_appends [OF Inr] Cons.IH Inr show ?thesis
      by (auto split: prod.splits)
  qed
qed

lemma collectFiles_success:
  "collectFiles mk types files = (files', None)
   \<Longrightarrow> list_all2 (\<lambda>f f'. collectFile mk types f = Inr f') files files'"
proof (induction files arbitrary: files')
  case Nil
  then show ?case by simp
next
  case (Cons fileData rest)
  then show ?case
    by (cases "collectFile mk types fileData"; cases "collectFiles mk types rest") auto
qed







lemma sourceFilePath_failures:
  "sourceFilePath env r fileData typeInfo = Inl e
   \<Longrightarrow> e \<noteq> PanicSliceBounds \<and> (\<forall>m. e \<noteq> CannotFindTypeInfo m)"
  by (auto simp: sourceFilePath_def Let_def split: if_splits option.splits list.splits)




lemmas example_defs =
  exampleGlob_def exampleEnv_def exampleRegistry_def sampleEnv_def sampleRegistry_def
  sampleType_def sampleFile_def sampleTSFileName_def sampleModuleName_def suffix_def

lemmas resolver_defs =
  collectExternalDependenciesFromData_def collectFile_def newDependency_def sourceFilePath_def
  IsFileToGenerate_def removeTsSuffix_def strings_LastIndex_def strings_Index_def
  strings_ReplaceAll_def path_Join_def Clean_def cleanStep_def filepath_Dir_def filepath_Rel_def
  filepath_Abs_def filepath_ToSlash_def filepath_FromSlash_def relativeSourceFile_def
  Separator_def Let_def
  relLoop.simps

lemma relativeSourceFile_slash:
  "relativeSourceFile (CHR ''/'') rel = (if prefix ''../'' rel then rel else ''./'' @ rel)"
  by (simp add: relativeSourceFile_def filepath_ToSlash_def filepath_FromSlash_def
      strings_Index_zero)

lemma sourceFilePath_in_run:
  assumes "IsFileToGenerate r (File typeInfo)"
  shows "sourceFilePath env r fileData typeInfo =
     (case filepath_Rel (filepath_Dir (TSFileName fileData)) (GetTSFileName env (File typeInfo)) of
        None \<Rightarrow> Inl (RelPathError (TSFileName fileData) (GetTSFileName env (File typeInfo)))
      | Some rel \<Rightarrow> Inr (relativeSourceFile Separator rel))"
  using assms by (simp add: sourceFilePath_def Let_def split: option.splits)

lemma run_fields:
  "registry (collectExternalDependenciesFromData env r files) = r"
  "filesData (collectExternalDependenciesFromData env r files)
     = fst (collectFiles (newDependency env r) (Types r) files)"
  "err (collectExternalDependenciesFromData env r files)
     = snd (collectFiles (newDependency env r) (Types r) files)"
  by (simp_all add: collectExternalDependenciesFromData_def split: prod.splits)

lemma run_rev0_fields:
  "registry (collectExternalDependenciesFromData_rev0 env r files) = r"
  "filesData (collectExternalDependenciesFromData_rev0 env r files)
     = fst (collectFiles (newDependency_rev0 env) (Types r) files)"
  "err (collectExternalDependenciesFromData_rev0 env r files)
     = snd (collectFiles (newDependency_rev0 env) (Types r) files)"
  by (simp_all add: collectExternalDependenciesFromData_rev0_def split: prod.splits)

section \<open>Facts about the path functions\<close>

lemma splitSlash_append_slash:
  "splitSlash cur (a @ CHR ''/'' # b) = splitSlash cur a @ splitSlash [] b"
  by (induction a arbitrary: cur) auto

lemma splitSlash_no_slash: "CHR ''/'' \<notin> set a \<Longrightarrow> splitSlash cur a = [cur @ a]"
  by (induction a arbitrary: cur) auto

lemma splitSlash_elements:
  "CHR ''/'' \<notin> set cur \<Longrightarrow> e \<in> set (splitSlash cur s) \<Longrightarrow> CHR ''/'' \<notin> set e"
proof (induction s arbitrary: cur)
  case Nil
  then show ?case by simp
next
  case (Cons c s)
  show ?case
  proof (cases "c = CHR ''/''")
    case True
    with Cons.prems have "e = cur \<or> e \<in> set (splitSlash [] s)" by simp
    then show ?thesis using Cons.prems(1) Cons.IH [of "[]"] by auto
  next
    case False
    with Cons.prems have "e \<in> set (splitSlash (cur @ [c]) s)" by simp
    moreover have "CHR ''/'' \<notin> set (cur @ [c])" using False Cons.prems(1) by simp
    ultimately show ?thesis using Cons.IH [of "cur @ [c]"] by blast
  qed
qed

lemma splitSlash_joinSlash:
  "es \<noteq> [] \<Longrightarrow> \<forall>e\<in>set es. CHR ''/'' \<notin> set e \<Longrightarrow> splitSlash [] (joinSlash es) = es"
proof (induction es rule: joinSlash.induct)
  case 1
  then show ?case by simp
next
  case (2 e)
  then show ?case by (simp add: splitSlash_no_slash)
next
  case (3 e v va)
  then show ?case by (simp add: splitSlash_append_slash splitSlash_no_slash)
qed

lemma cleanElements_Nil [simp]: "cleanElements rooted []"
  by (simp add: cleanElements_def)

lemma cleanElements_rooted: "cleanElements True es \<longleftrightarrow> list_all properElement es"
  by (simp add: cleanElements_def)

lemma cleanElements_snoc_proper:
  "cleanElements rooted out \<Longrightarrow> properElement e \<Longrightarrow> cleanElements rooted (out @ [e])"
  by (auto simp: cleanElements_def dropWhile_append properElement_def)

lemma cleanElements_butlast:
  "cleanElements rooted out \<Longrightarrow> cleanElements rooted (butlast out)"
proof (induction out)
  case Nil
  then show ?case by simp
next
  case (Cons a out)
  have b: "\<And>xs. list_all properElement xs \<Longrightarrow> list_all properElement (butlast xs)"
    by (auto simp: list_all_iff dest: in_set_butlastD)
  from Cons show ?case
    by (cases "out = []") (auto simp: cleanElements_def b split: if_splits)
qed

lemma cleanElements_dots:
  "cleanElements False out \<Longrightarrow> out = [] \<or> last out = ''..''
   \<Longrightarrow> cleanElements False (out @ [''..''])"
proof (induction out)
  case Nil
  then show ?case by (simp add: cleanElements_def)
next
  case (Cons a out)
  show ?case
  proof (cases "a = ''..''")
    case True
    with Cons show ?thesis
      by (cases "out = []") (auto simp: cleanElements_def)
  next
    case False
    with Cons.prems have "list_all properElement (a # out)" by (simp add: cleanElements_def)
    then have "properElement (last (a # out))"
      by (metis last_in_set list.distinct(1) list_all_iff)
    with Cons.prems(2) show ?thesis by (simp add: properElement_def)
  qed
qed

lemma cleanStep_keeps_clean:
  assumes "cleanElements rooted out" "CHR ''/'' \<notin> set e"
  shows "cleanElements rooted (cleanStep rooted out e)"
proof -
  consider "e = [] \<or> e = ''.''" | "e = ''..''" | "properElement e"
    using assms(2) by (auto simp: properElement_def)
  then show ?thesis
  proof cases
    case 1
    then show ?thesis using assms(1) by (auto simp: cleanStep_def)
  next
    case 2
    then show ?thesis
      using assms(1) cleanElements_butlast [OF assms(1)] cleanElements_dots [of out]
      by (cases rooted) (auto simp: cleanStep_def)
  next
    case 3
    then show ?thesis
      using cleanElements_snoc_proper [OF assms(1)] by (auto simp: cleanStep_def properElement_def)
  qed
qed

lemma foldl_cleanStep_clean:
  "cleanElements rooted out \<Longrightarrow> \<forall>e\<in>set es. CHR ''/'' \<notin> set e
   \<Longrightarrow> cleanElements rooted (foldl (cleanStep rooted) out es)"
  by (induction es arbitrary: out) (auto simp: cleanStep_keeps_clean)

lemma Clean_render:
  "\<exists>es. cleanElements (path \<noteq> [] \<and> hd path = CHR ''/'') es
        \<and> Clean path = renderPath (path \<noteq> [] \<and> hd path = CHR ''/'') es"
proof (cases "path = []")
  case True
  have "cleanElements False [] \<and> Clean [] = renderPath False []"
    by (simp add: Clean_def renderPath_def)
  with True show ?thesis by (intro exI [of _ "[]"]) simp
next
  case False
  let ?r = "hd path = CHR ''/''"
  let ?out = "foldl (cleanStep ?r) [] (splitSlash [] path)"
  have "cleanElements ?r ?out"
    by (rule foldl_cleanStep_clean) (auto dest: splitSlash_elements [rotated])
  moreover have "Clean path = renderPath ?r ?out"
    using False by (simp add: Clean_def renderPath_def Let_def)
  ultimately show ?thesis using False by auto
qed


lemma cleanElements_prefix:
  assumes "cleanElements rooted (xs @ ys)"
  shows "cleanElements rooted xs"
proof (cases "\<forall>x\<in>set xs. \<not> rooted \<and> x = ''..''")
  case True
  then have d: "dropWhile (\<lambda>e. \<not> rooted \<and> e = ''..'') xs = []"
    by (simp add: dropWhile_eq_Nil_conv)
  show ?thesis unfolding cleanElements_def d by simp
next
  case False
  then obtain x where "x \<in> set xs" "\<not> (\<not> rooted \<and> x = ''..'')" by blast
  then have "dropWhile (\<lambda>e. \<not> rooted \<and> e = ''..'') (xs @ ys)
             = dropWhile (\<lambda>e. \<not> rooted \<and> e = ''..'') xs @ ys"
    by (rule dropWhile_append1)
  with assms show ?thesis by (simp add: cleanElements_def)
qed

lemma cleanElements_element:
  "cleanElements rooted es \<Longrightarrow> e \<in> set es \<Longrightarrow> e \<noteq> [] \<and> CHR ''/'' \<notin> set e"
proof (induction es)
  case Nil
  then show ?case by simp
next
  case (Cons a es)
  show ?case
  proof (cases "\<not> rooted \<and> a = ''..''")
    case True
    with Cons show ?thesis by (auto simp: cleanElements_def)
  next
    case False
    with Cons.prems have "list_all properElement (a # es)" by (auto simp: cleanElements_def)
    with Cons.prems(2) show ?thesis by (auto simp: list_all_iff properElement_def)
  qed
qed

lemma cleanElements_last_dots:
  assumes "cleanElements rooted (out @ [''..''])"
  shows "\<not> rooted \<and> (out = [] \<or> last out = ''..'')"
proof -
  have np: "\<not> properElement ''..''" by (simp add: properElement_def)
  have all: "\<forall>x\<in>set (out @ [''..'']). \<not> rooted \<and> x = ''..''"
  proof (rule ccontr)
    assume "\<not> (\<forall>x\<in>set (out @ [''..'']). \<not> rooted \<and> x = ''..'')"
    then have "dropWhile (\<lambda>e. \<not> rooted \<and> e = ''..'') (out @ [''..'']) \<noteq> []"
      by (simp add: dropWhile_eq_Nil_conv)
    then have "last (dropWhile (\<lambda>e. \<not> rooted \<and> e = ''..'') (out @ [''..'']))
                 \<in> set (dropWhile (\<lambda>e. \<not> rooted \<and> e = ''..'') (out @ [''..'']))"
      by (rule last_in_set)
    moreover have "last (dropWhile (\<lambda>e. \<not> rooted \<and> e = ''..'') (out @ [''..''])) = ''..''"
    proof -
      have "last (takeWhile (\<lambda>e. \<not> rooted \<and> e = ''..'') (out @ [''..''])
                  @ dropWhile (\<lambda>e. \<not> rooted \<and> e = ''..'') (out @ [''..'']))
            = last (dropWhile (\<lambda>e. \<not> rooted \<and> e = ''..'') (out @ [''..'']))"
        using \<open>dropWhile (\<lambda>e. \<not> rooted \<and> e = ''..'') (out @ [''..'']) \<noteq> []\<close>
        by (rule last_appendR)
      then show ?thesis by (simp only: takeWhile_dropWhile_id last_snoc)
    qed
    ultimately show False using assms np by (auto simp: cleanElements_def list_all_iff)
  qed
  then show ?thesis by (cases out rule: rev_cases) auto
qed

lemma cleanStep_appends:
  assumes "cleanElements rooted (out @ [e])"
  shows "cleanStep rooted out e = out @ [e]"
proof (cases "e = ''..''")
  case True
  with cleanElements_last_dots [of rooted out] assms show ?thesis
    by (auto simp: cleanStep_def)
next
  case False
  have "e \<noteq> [] \<and> CHR ''/'' \<notin> set e"
    using cleanElements_element [OF assms, of e] by simp
  moreover have "e \<noteq> ''.''"
  proof
    assume "e = ''.''"
    with assms have "cleanElements rooted (out @ [''.''])" by simp
    then have "list_all properElement (dropWhile (\<lambda>e. \<not> rooted \<and> e = ''..'') (out @ [''.'']))"
      by (simp add: cleanElements_def)
    moreover have "''.'' \<in> set (dropWhile (\<lambda>e. \<not> rooted \<and> e = ''..'') (out @ [''.'']))"
      by (induction out) auto
    ultimately have "properElement ''.''" unfolding list_all_iff by blast
    then show False by (simp add: properElement_def)
  qed
  ultimately show ?thesis using False by (simp add: cleanStep_def)
qed

lemma foldl_cleanStep_appends:
  "cleanElements rooted (out @ es) \<Longrightarrow> foldl (cleanStep rooted) out es = out @ es"
proof (induction es arbitrary: out)
  case Nil
  then show ?case by simp
next
  case (Cons e es)
  from Cons.prems have "cleanElements rooted ((out @ [e]) @ es)" by simp
  then have a: "cleanElements rooted (out @ [e])" by (rule cleanElements_prefix)
  from Cons.IH [of "out @ [e]"] Cons.prems cleanStep_appends [OF a] show ?case by simp
qed

lemma joinSlash_Cons: "es \<noteq> [] \<Longrightarrow> joinSlash (e # es) = e @ CHR ''/'' # joinSlash es"
  by (cases es) auto

lemma joinSlash_empty:
  "\<forall>e\<in>set es. e \<noteq> [] \<Longrightarrow> joinSlash es = [] \<longleftrightarrow> es = []"
  by (induction es rule: joinSlash.induct) auto

lemma hd_joinSlash:
  "es \<noteq> [] \<Longrightarrow> hd es \<noteq> [] \<Longrightarrow> hd (joinSlash es) = hd (hd es)"
  by (induction es rule: joinSlash.induct) auto

lemma renderPath_nonempty: "cleanElements rooted es \<Longrightarrow> renderPath rooted es \<noteq> []"
  using joinSlash_empty [of es] cleanElements_element [of rooted es]
  by (auto simp: renderPath_def)

lemma hd_renderPath:
  assumes "cleanElements rooted es"
  shows "hd (renderPath rooted es) = CHR ''/'' \<longleftrightarrow> rooted"
proof (cases "rooted \<or> es = []")
  case True
  then show ?thesis by (auto simp: renderPath_def)
next
  case False
  then have "hd es \<in> set es" by simp
  from cleanElements_element [OF assms this] have "hd es \<noteq> []" "CHR ''/'' \<notin> set (hd es)" by auto
  then have "hd (hd es) \<noteq> CHR ''/''" by (metis hd_in_set)
  with False \<open>hd es \<noteq> []\<close> show ?thesis by (simp add: renderPath_def hd_joinSlash)
qed

lemma foldl_cleanStep_skip:
  "foldl (cleanStep rooted) out ([] # es) = foldl (cleanStep rooted) out es"
  "foldl (cleanStep rooted) out (''.'' # es) = foldl (cleanStep rooted) out es"
  by (simp_all add: cleanStep_def)

lemma splitSlash_clean:
  assumes "cleanElements rooted es" "es \<noteq> []"
  shows "splitSlash [] (joinSlash es) = es"
  using assms cleanElements_element [OF assms(1)] by (intro splitSlash_joinSlash) auto

lemma Clean_nonempty:
  "path \<noteq> [] \<Longrightarrow> Clean path =
     renderPath (hd path = CHR ''/'') (foldl (cleanStep (hd path = CHR ''/'')) [] (splitSlash [] path))"
  by (simp add: Clean_def Let_def renderPath_def)

lemma Clean_renderPath:
  assumes "cleanElements rooted es"
  shows "Clean (renderPath rooted es) = renderPath rooted es"
proof -
  have ne: "renderPath rooted es \<noteq> []" by (rule renderPath_nonempty [OF assms])
  have hd: "(hd (renderPath rooted es) = CHR ''/'') = rooted" by (rule hd_renderPath [OF assms])
  have fold: "foldl (cleanStep rooted) [] es = es"
    using foldl_cleanStep_appends [of rooted "[]" es] assms by simp
  have "foldl (cleanStep rooted) [] (splitSlash [] (renderPath rooted es)) = es"
  proof (cases "es = []")
    case True
    then show ?thesis by (cases rooted) (simp_all add: renderPath_def cleanStep_def)
  next
    case False
    with splitSlash_clean [OF assms] fold show ?thesis
      by (cases rooted) (simp_all add: renderPath_def cleanStep_def)
  qed
  then show ?thesis unfolding Clean_nonempty [OF ne] hd by simp
qed

lemma takeWhile_joinSlash:
  "es \<noteq> [] \<Longrightarrow> CHR ''/'' \<notin> set (hd es)
   \<Longrightarrow> takeWhile (\<lambda>c. c \<noteq> CHR ''/'') (joinSlash es) = hd es"
proof (induction es rule: joinSlash.induct)
  case 1
  then show ?case by simp
next
  case (2 e)
  then have "\<forall>x\<in>set e. x \<noteq> CHR ''/''" by auto
  then show ?case by (simp add: takeWhile_eq_all_conv [THEN iffD2])
next
  case (3 e v va)
  then show ?case using takeWhile_stop [of "CHR ''/''" e] by simp
qed

lemma drop_joinSlash:
  "drop (Suc (length e)) (joinSlash (e # es)) = joinSlash es"
  by (cases es) simp_all

lemma relLoop_joined:
  assumes "\<forall>e\<in>set (pre @ bs0 @ ts0). e \<noteq> [] \<and> CHR ''/'' \<notin> set e"
    and "bs0 = [] \<or> ts0 = [] \<or> hd bs0 \<noteq> hd ts0"
  shows "relLoop (joinSlash (pre @ bs0)) (joinSlash (pre @ ts0))
         = (if bs0 = [] then [] else hd bs0, joinSlash bs0, joinSlash ts0)"
  using assms
proof (induction pre)
  case Nil
  show ?case
  proof (cases "bs0 = [] \<or> ts0 = []")
    case True
    then have "joinSlash bs0 = [] \<or> joinSlash ts0 = []" by auto
    moreover have "takeWhile (\<lambda>c. c \<noteq> CHR ''/'') (joinSlash bs0) = (if bs0 = [] then [] else hd bs0)"
    proof (cases "bs0 = []")
      case True
      then show ?thesis by simp
    next
      case False
      then have "takeWhile (\<lambda>c. c \<noteq> CHR ''/'') (joinSlash bs0) = hd bs0"
        using Nil.prems(1) by (intro takeWhile_joinSlash) auto
      with False show ?thesis by simp
    qed
    ultimately show ?thesis by (subst relLoop.simps) (auto simp: Separator_def)
  next
    case False
    then have ne: "joinSlash bs0 \<noteq> []" "joinSlash ts0 \<noteq> []"
      using Nil.prems(1) joinSlash_empty [of bs0] joinSlash_empty [of ts0] by auto
    have tb: "takeWhile (\<lambda>c. c \<noteq> CHR ''/'') (joinSlash bs0) = hd bs0"
      using False Nil.prems(1) by (intro takeWhile_joinSlash) auto
    have tt: "takeWhile (\<lambda>c. c \<noteq> CHR ''/'') (joinSlash ts0) = hd ts0"
      using False Nil.prems(1) by (intro takeWhile_joinSlash) auto
    have "hd bs0 \<noteq> hd ts0" using False Nil.prems(2) by simp
    then show ?thesis
      using ne tb tt False by (subst relLoop.simps) (auto simp: Separator_def Let_def)
  qed
next
  case (Cons p pre)
  have p: "p \<noteq> []" "CHR ''/'' \<notin> set p" using Cons.prems(1) by auto
  have nonempty: "\<And>es. joinSlash (p # es) \<noteq> []"
  proof -
    fix es show "joinSlash (p # es) \<noteq> []" using p(1) by (cases es) simp_all
  qed
  have ne: "joinSlash (p # pre @ bs0) \<noteq> []" "joinSlash (p # pre @ ts0) \<noteq> []"
    by (rule nonempty)+
  have t: "takeWhile (\<lambda>c. c \<noteq> CHR ''/'') (joinSlash (p # pre @ bs0)) = p"
    "takeWhile (\<lambda>c. c \<noteq> CHR ''/'') (joinSlash (p # pre @ ts0)) = p"
    using p(2) takeWhile_joinSlash [of "p # pre @ bs0"] takeWhile_joinSlash [of "p # pre @ ts0"]
    by simp_all
  have ih: "relLoop (joinSlash (pre @ bs0)) (joinSlash (pre @ ts0))
         = (if bs0 = [] then [] else hd bs0, joinSlash bs0, joinSlash ts0)"
    using Cons.IH Cons.prems by simp
  have "relLoop (joinSlash ((p # pre) @ bs0)) (joinSlash ((p # pre) @ ts0))
        = relLoop (joinSlash (pre @ bs0)) (joinSlash (pre @ ts0))"
    using ne t by (subst relLoop.simps) (simp add: Separator_def Let_def drop_joinSlash)
  with ih show ?case by simp
qed

lemma common_prefix:
  "\<exists>pre bs0 ts0. bs = pre @ bs0 \<and> ts = pre @ ts0 \<and> (bs0 = [] \<or> ts0 = [] \<or> hd bs0 \<noteq> hd ts0)"
proof (induction bs arbitrary: ts)
  case Nil
  show ?case
    by (rule exI [of _ "[]"], rule exI [of _ "[]"], rule exI [of _ ts]) simp
next
  case (Cons b bs)
  show ?case
  proof (cases ts)
    case Nil
    show ?thesis
      by (rule exI [of _ "[]"], rule exI [of _ "b # bs"], rule exI [of _ "[]"]) (simp add: Nil)
  next
    case (Cons t ts')
    show ?thesis
    proof (cases "b = t")
      case True
      from Cons.IH [of ts'] obtain pre bs0 ts0 where
        d: "bs = pre @ bs0" "ts' = pre @ ts0" "bs0 = [] \<or> ts0 = [] \<or> hd bs0 \<noteq> hd ts0"
        by (elim exE conjE)
      show ?thesis
        by (rule exI [of _ "b # pre"], rule exI [of _ bs0], rule exI [of _ ts0])
          (simp add: d True Cons)
    next
      case False
      show ?thesis
        by (rule exI [of _ "[]"], rule exI [of _ "b # bs"], rule exI [of _ ts])
          (simp add: False Cons)
    qed
  qed
qed

lemma separators_joinSlash:
  "\<forall>e\<in>set es. CHR ''/'' \<notin> set e
   \<Longrightarrow> length (filter (\<lambda>c. c = CHR ''/'') (joinSlash es)) = length es - 1"
proof (induction es rule: joinSlash.induct)
  case 1
  then show ?case by simp
next
  case (2 e)
  then have "\<forall>x\<in>set e. x \<noteq> CHR ''/''" by auto
  then show ?case by (simp add: filter_empty_conv)
next
  case (3 e v va)
  then have "\<forall>x\<in>set e. x \<noteq> CHR ''/''" by auto
  then have "filter (\<lambda>c. c = CHR ''/'') e = []" by (simp add: filter_empty_conv)
  with 3 show ?case by simp
qed

lemma joinSlash_dots:
  "joinSlash (replicate (Suc k) ''..'' @ ts0)
   = ''..'' @ concat (replicate k ''/..'') @ (if ts0 = [] then [] else CHR ''/'' # joinSlash ts0)"
proof (induction k)
  case 0
  then show ?case by (cases ts0) simp_all
next
  case (Suc k)
  have "joinSlash (replicate (Suc (Suc k)) ''..'' @ ts0)
        = ''..'' @ CHR ''/'' # joinSlash (replicate (Suc k) ''..'' @ ts0)"
    by simp
  with Suc show ?case by simp
qed

lemma elements_of_renderPath:
  assumes "cleanElements rooted es"
  shows "foldl (cleanStep rooted) [] (splitSlash [] (renderPath rooted es)) = es"
proof -
  have fold: "foldl (cleanStep rooted) [] es = es"
    using foldl_cleanStep_appends [of rooted "[]" es] assms by simp
  show ?thesis
  proof (cases "es = []")
    case True
    then show ?thesis by (cases rooted) (simp_all add: renderPath_def cleanStep_def)
  next
    case False
    with splitSlash_clean [OF assms] fold show ?thesis
      by (cases rooted) (simp_all add: renderPath_def cleanStep_def)
  qed
qed

lemma renderPath_inj:
  assumes "cleanElements rooted es" "cleanElements rooted es'"
    and "renderPath rooted es = renderPath rooted es'"
  shows "es = es'"
proof -
  have "es = foldl (cleanStep rooted) [] (splitSlash [] (renderPath rooted es))"
    by (simp only: elements_of_renderPath [OF assms(1)])
  also have "\<dots> = foldl (cleanStep rooted) [] (splitSlash [] (renderPath rooted es'))"
    by (simp only: assms(3))
  also have "\<dots> = es'"
    by (simp only: elements_of_renderPath [OF assms(2)])
  finally show ?thesis .
qed

lemma renderPath_dot:
  assumes "cleanElements rooted es"
  shows "renderPath rooted es = ''.'' \<longleftrightarrow> \<not> rooted \<and> es = []"
proof (cases rooted)
  case True
  then show ?thesis by (simp add: renderPath_def)
next
  case False
  have d: "renderPath False [] = ''.''" by (simp add: renderPath_def)
  show ?thesis
  proof
    assume "renderPath rooted es = ''.''"
    then have "renderPath False es = renderPath False []" using False d by simp
    moreover have "cleanElements False es" using assms False by simp
    moreover have "cleanElements False []" by simp
    ultimately have "es = []" by (rule renderPath_inj [rotated 2])
    with False show "\<not> rooted \<and> es = []" by simp
  next
    assume "\<not> rooted \<and> es = []"
    then show "renderPath rooted es = ''.''" using d by simp
  qed
qed

lemma relLoop_rooted:
  "relLoop (CHR ''/'' # x) (CHR ''/'' # y) = relLoop x y"
  by (subst relLoop.simps) (simp add: Separator_def)

lemma filepath_Rel_rendered:
  assumes cb: "cleanElements rooted (pre @ bs0)" and ct: "cleanElements rooted (pre @ ts0)"
    and diff: "bs0 = [] \<or> ts0 = [] \<or> hd bs0 \<noteq> hd ts0"
    and ne: "bs0 \<noteq> ts0" and tne: "pre @ ts0 \<noteq> []"
  shows "filepath_Rel (renderPath rooted (pre @ bs0)) (renderPath rooted (pre @ ts0))
         = (if bs0 \<noteq> [] \<and> hd bs0 = ''..'' then None
            else Some (joinSlash (replicate (length bs0) ''..'' @ ts0)))"
proof -
  let ?base = "renderPath rooted (pre @ bs0)" and ?targ = "renderPath rooted (pre @ ts0)"
  have "?targ \<noteq> ''.''" using renderPath_dot [OF ct] tne by blast
  then have tq: "(if ?targ = ''.'' then [] else ?targ) = ?targ" by (simp only: if_False)
  have el: "\<forall>e\<in>set (pre @ bs0 @ ts0). e \<noteq> [] \<and> CHR ''/'' \<notin> set e"
    using cleanElements_element [OF cb] cleanElements_element [OF ct] by auto
  have neq: "?targ \<noteq> ?base"
    using renderPath_inj [OF ct cb] ne by auto
  let ?base' = "if ?base = ''.'' then [] else ?base"
  have bs: "(?base' \<noteq> [] \<and> hd ?base' = Separator) = rooted"
    using hd_renderPath [OF cb] renderPath_nonempty [OF cb] renderPath_dot [OF cb]
    by (auto simp: Separator_def)
  have ts: "(?targ \<noteq> [] \<and> hd ?targ = Separator) = rooted"
    using hd_renderPath [OF ct] renderPath_nonempty [OF ct] by (auto simp: Separator_def)
  have loop: "relLoop ?base' ?targ
      = (if bs0 = [] then [] else hd bs0, joinSlash bs0, joinSlash ts0)"
  proof (cases rooted)
    case True
    then show ?thesis
      using relLoop_joined [OF el diff] by (simp add: renderPath_def relLoop_rooted)
  next
    case False
    have "?base' = joinSlash (pre @ bs0)"
      using False renderPath_dot [OF cb] by (auto simp: renderPath_def)
    moreover have "?targ = joinSlash (pre @ ts0)"
      using False tne by (simp add: renderPath_def)
    ultimately show ?thesis using relLoop_joined [OF el diff] by simp
  qed
  have empty: "joinSlash bs0 = [] \<longleftrightarrow> bs0 = []" "joinSlash ts0 = [] \<longleftrightarrow> ts0 = []"
    using el joinSlash_empty [of bs0] joinSlash_empty [of ts0] by auto
  have seps: "length (filter (\<lambda>c. c = CHR ''/'') (joinSlash bs0)) = length bs0 - 1"
    using el separators_joinSlash [of bs0] by simp
  have "filepath_Rel ?base ?targ
      = (case relLoop ?base' ?targ of
           (be, brest, trest) \<Rightarrow>
             if be = ''..'' then None
             else if brest \<noteq> [] then
               Some (''..''
                     @ concat (replicate (length (filter (\<lambda>c. c = Separator) brest)) ''/..'')
                     @ (if trest \<noteq> [] then Separator # trest else []))
             else Some trest)"
    unfolding filepath_Rel_def Clean_renderPath [OF cb] Clean_renderPath [OF ct] Let_def tq bs ts
    using neq by simp
  then have unfold: "filepath_Rel ?base ?targ
      = (case relLoop ?base' ?targ of
           (be, brest, trest) \<Rightarrow>
             if be = ''..'' then None
             else if brest \<noteq> [] then
               Some (''..''
                     @ concat (replicate (length (filter (\<lambda>c. c = CHR ''/'') brest)) ''/..'')
                     @ (if trest \<noteq> [] then CHR ''/'' # trest else []))
             else Some trest)"
    by (simp only: Separator_def)
  show ?thesis
  proof (cases "bs0 = []")
    case True
    then show ?thesis unfolding unfold loop by (simp add: empty)
  next
    case False
    then obtain k where k: "length bs0 = Suc k" by (cases bs0) auto
    have "joinSlash (replicate (length bs0) ''..'' @ ts0)
          = ''..'' @ concat (replicate k ''/..'') @ (if ts0 = [] then [] else CHR ''/'' # joinSlash ts0)"
      unfolding k by (rule joinSlash_dots)
    then show ?thesis
      unfolding unfold loop using False k by (auto simp: empty seps)
  qed
qed

lemma filepath_Rel_mixed:
  assumes cb: "cleanElements rb bs" and ct: "cleanElements rt ts" and "rb \<noteq> rt"
  shows "filepath_Rel (renderPath rb bs) (renderPath rt ts) = None"
proof -
  let ?base = "renderPath rb bs" and ?targ = "renderPath rt ts"
  have neq: "?targ \<noteq> ?base"
    using hd_renderPath [OF cb] hd_renderPath [OF ct] assms(3) by auto
  let ?base' = "if ?base = ''.'' then [] else ?base"
  have bs: "(?base' \<noteq> [] \<and> hd ?base' = Separator) = rb"
    using hd_renderPath [OF cb] renderPath_nonempty [OF cb] renderPath_dot [OF cb]
    by (auto simp: Separator_def)
  let ?targ' = "if ?targ = ''.'' then [] else ?targ"
  have ts: "(?targ' \<noteq> [] \<and> hd ?targ' = Separator) = rt"
    using hd_renderPath [OF ct] renderPath_nonempty [OF ct] renderPath_dot [OF ct]
    by (auto simp: Separator_def)
  show ?thesis
    unfolding filepath_Rel_def Clean_renderPath [OF cb] Clean_renderPath [OF ct] Let_def bs ts
    using neq assms(3) by simp
qed

lemma Clean_idem: "Clean (Clean path) = Clean path"
proof -
  from Clean_render [of path] obtain es where
    "cleanElements (path \<noteq> [] \<and> hd path = CHR ''/'') es"
    "Clean path = renderPath (path \<noteq> [] \<and> hd path = CHR ''/'') es"
    by (elim exE conjE)
  then show ?thesis by (simp only: Clean_renderPath)
qed

lemma filepath_Rel_Clean:
  "filepath_Rel basepath targpath = filepath_Rel (Clean basepath) (Clean targpath)"
  by (simp only: filepath_Rel_def Clean_idem)

lemma splitSlash_nonempty: "splitSlash cur s \<noteq> []"
  by (induction s arbitrary: cur) auto

lemma splitSlash_snoc_chars:
  "CHR ''/'' \<notin> set t
   \<Longrightarrow> splitSlash cur (s @ t) = butlast (splitSlash cur s) @ [last (splitSlash cur s) @ t]"
proof (induction s arbitrary: cur)
  case Nil
  then show ?case by (simp add: splitSlash_no_slash)
next
  case (Cons c s)
  then show ?case by (simp add: splitSlash_nonempty)
qed

lemma Clean_last_element:
  assumes "suffix ''.ts'' path"
  shows "\<exists>rooted es e. cleanElements rooted (es @ [e]) \<and> Clean path = renderPath rooted (es @ [e])
           \<and> suffix ''.ts'' e"
proof -
  from assms obtain q where q: "path = q @ ''.ts''" by (auto simp: suffix_def)
  then have ne: "path \<noteq> []" by simp
  let ?r = "hd path = CHR ''/''"
  let ?xs = "butlast (splitSlash [] q)"
  let ?e = "last (splitSlash [] q) @ ''.ts''"
  let ?out = "foldl (cleanStep ?r) [] ?xs"
  have split: "splitSlash [] path = ?xs @ [?e]"
    unfolding q by (rule splitSlash_snoc_chars) simp
  have "last (splitSlash [] q) \<in> set (splitSlash [] q)"
    by (rule last_in_set) (rule splitSlash_nonempty)
  then have "CHR ''/'' \<notin> set (last (splitSlash [] q))"
    using splitSlash_elements [of "[]" _ q] by simp
  then have pe: "properElement ?e" by (simp add: properElement_def)
  have "\<forall>e\<in>set ?xs. CHR ''/'' \<notin> set e"
    using splitSlash_elements [of "[]" _ q] by (auto dest: in_set_butlastD)
  then have co: "cleanElements ?r ?out"
    by (intro foldl_cleanStep_clean) simp_all
  have c: "cleanElements ?r (?out @ [?e])"
    by (rule cleanElements_snoc_proper [OF co pe])
  have "foldl (cleanStep ?r) [] (splitSlash [] path) = cleanStep ?r ?out ?e"
    unfolding split by simp
  also have "\<dots> = ?out @ [?e]" by (rule cleanStep_appends [OF c])
  finally have "Clean path = renderPath ?r (?out @ [?e])"
    using Clean_nonempty [OF ne] by simp
  moreover have "suffix ''.ts'' ?e" by (simp add: suffix_def)
  ultimately show ?thesis using c by blast
qed

lemma cleanElements_suffix_proper:
  "cleanElements rooted (xs @ y # ys) \<Longrightarrow> y \<noteq> ''..'' \<Longrightarrow> list_all properElement (y # ys)"
proof (induction xs)
  case Nil
  then show ?case by (simp add: cleanElements_def)
next
  case (Cons x xs)
  show ?case
  proof (cases "\<not> rooted \<and> x = ''..''")
    case True
    with Cons.prems(1) have "cleanElements rooted (xs @ y # ys)" by (simp add: cleanElements_def)
    then show ?thesis using Cons.prems(2) by (rule Cons.IH)
  next
    case False
    with Cons.prems(1) have "list_all properElement (x # xs @ y # ys)"
      by (auto simp: cleanElements_def)
    then show ?thesis by simp
  qed
qed

lemma foldl_cleanStep_pops:
  "list_all properElement bs0
   \<Longrightarrow> foldl (cleanStep rooted) (pre @ bs0) (replicate (length bs0) ''..'') = pre"
proof (induction bs0 rule: rev_induct)
  case Nil
  then show ?case by simp
next
  case (snoc b bs0)
  then have b: "b \<noteq> ''..''" by (simp add: properElement_def)
  have "cleanStep rooted (pre @ bs0 @ [b]) ''..'' = pre @ bs0"
    using b by (simp add: cleanStep_def butlast_append)
  moreover have "list_all properElement bs0" using snoc.prems by simp
  ultimately show ?case using snoc.IH by simp
qed

lemma joinSlash_snoc:
  "joinSlash (es @ [e]) = (if es = [] then e else joinSlash es @ CHR ''/'' # e)"
  by (induction es rule: joinSlash.induct) auto

lemma Clean_joined:
  assumes cb: "cleanElements rooted (pre @ bs0)" and ct: "cleanElements rooted (pre @ ts0)"
    and pr: "list_all properElement bs0" and ne: "replicate (length bs0) ''..'' @ ts0 \<noteq> []"
    and path: "path = joinSlash (replicate (length bs0) ''..'' @ ts0)
               \<or> path = ''./'' @ joinSlash (replicate (length bs0) ''..'' @ ts0)"
  shows "Clean (renderPath rooted (pre @ bs0) @ CHR ''/'' # path) = renderPath rooted (pre @ ts0)"
proof -
  let ?xs = "replicate (length bs0) ''..'' @ ts0"
  have el: "\<forall>e\<in>set ?xs. CHR ''/'' \<notin> set e"
    using cleanElements_element [OF ct] by auto
  have sj: "splitSlash [] (joinSlash ?xs) = ?xs"
    by (rule splitSlash_joinSlash [OF ne el])
  have sp: "splitSlash [] path = ?xs \<or> splitSlash [] path = ''.'' # ?xs"
    using path sj splitSlash_append_slash [of "[]" "''.''" "joinSlash ?xs"]
    by (auto simp: splitSlash_no_slash)
  have "foldl (cleanStep rooted) (pre @ bs0) (splitSlash [] path)
        = foldl (cleanStep rooted) (pre @ bs0) ?xs"
    using sp by (auto simp: cleanStep_def)
  also have "\<dots> = foldl (cleanStep rooted) pre ts0"
    by (simp add: foldl_cleanStep_pops [OF pr])
  also have "\<dots> = pre @ ts0" by (rule foldl_cleanStep_appends [OF ct])
  finally have tail: "foldl (cleanStep rooted) (pre @ bs0) (splitSlash [] path) = pre @ ts0" .
  let ?whole = "renderPath rooted (pre @ bs0) @ CHR ''/'' # path"
  have "foldl (cleanStep rooted) [] (splitSlash [] ?whole) = pre @ ts0"
    by (simp add: splitSlash_append_slash elements_of_renderPath [OF cb] tail)
  moreover have "?whole \<noteq> []" by simp
  moreover have "(hd ?whole = CHR ''/'') = rooted"
    using hd_renderPath [OF cb] renderPath_nonempty [OF cb] by simp
  ultimately show ?thesis using Clean_nonempty [of ?whole] by simp
qed

lemma contains_ts_has_t: "strings_Contains s ''.ts'' \<Longrightarrow> CHR ''t'' \<in> set s"
  by (auto simp: strings_Contains_iff)

lemma dots_have_no_t: "CHR ''t'' \<notin> set (joinSlash (replicate k ''..''))"
proof (induction k)
  case 0
  then show ?case by simp
next
  case (Suc k)
  then show ?case by (cases k) simp_all
qed

lemma filepath_Rel_same: "Clean targpath = Clean basepath \<Longrightarrow> filepath_Rel basepath targpath = Some ''.''"
  by (simp add: filepath_Rel_def)

lemma removeTsSuffix_needs_t:
  assumes "removeTsSuffix path = Inr stripped"
  shows "CHR ''t'' \<in> set path"
proof -
  have "removeTsSuffix path \<noteq> Inl PanicSliceBounds" using assms by simp
  then have "strings_Contains path ''.ts''" using removeTsSuffix_panics [of path] by blast
  then show ?thesis by (rule contains_ts_has_t)
qed

lemma suffix_joinSlash_last: "suffix e (joinSlash (es @ [e]))"
  by (simp add: joinSlash_snoc suffix_def)

lemma rel_round_trip:
  assumes rel: "filepath_Rel (Clean dir) target = Some rel"
    and path: "path = (if prefix ''../'' rel then rel else ''./'' @ rel)"
    and strip: "removeTsSuffix path = Inr stripped"
    and ts: "suffix ''.ts'' target"
  shows "stripped @ ''.ts'' = path \<and> Clean (Clean dir @ CHR ''/'' # path) = Clean target"
proof -
  from Clean_render [of dir] obtain rd ds where
    cd: "cleanElements rd ds" and d: "Clean dir = renderPath rd ds"
    by (elim exE conjE)
  from Clean_last_element [OF ts] obtain rt es e where
    ct: "cleanElements rt (es @ [e])" and t: "Clean target = renderPath rt (es @ [e])"
    and e: "suffix ''.ts'' e"
    by (elim exE conjE)
  have t_in_path: "CHR ''t'' \<in> set path" by (rule removeTsSuffix_needs_t [OF strip])
  have "filepath_Rel (Clean dir) target = filepath_Rel (Clean dir) (Clean target)"
    using filepath_Rel_Clean [of "Clean dir" target] by (simp only: Clean_idem)
  with rel have r: "filepath_Rel (renderPath rd ds) (renderPath rt (es @ [e])) = Some rel"
    by (simp only: d t)
  have same: "rd = rt"
  proof (rule ccontr)
    assume "rd \<noteq> rt"
    from filepath_Rel_mixed [OF cd ct this] r show False by simp
  qed
  from common_prefix [of ds "es @ [e]"] obtain pre bs0 ts0 where
    ds: "ds = pre @ bs0" and tse: "es @ [e] = pre @ ts0"
    and diff: "bs0 = [] \<or> ts0 = [] \<or> hd bs0 \<noteq> hd ts0"
    by (elim exE conjE)
  have cb: "cleanElements rt (pre @ bs0)" using cd ds same by simp
  have ct': "cleanElements rt (pre @ ts0)" using ct tse by simp
  have r': "filepath_Rel (renderPath rt (pre @ bs0)) (renderPath rt (pre @ ts0)) = Some rel"
    using r ds tse same by simp
  have neq: "bs0 \<noteq> ts0"
  proof
    assume "bs0 = ts0"
    then have "filepath_Rel (renderPath rt (pre @ bs0)) (renderPath rt (pre @ ts0)) = Some ''.''"
      by (simp add: filepath_Rel_same)
    with r' have "rel = ''.''" by simp
    with path have "path = ''./.''" by simp
    with t_in_path show False by simp
  qed
  have tne: "pre @ ts0 \<noteq> []" using tse [symmetric] by simp
  from filepath_Rel_rendered [OF cb ct' diff neq tne] r'
  have ok: "\<not> (bs0 \<noteq> [] \<and> hd bs0 = ''..'')"
    and relv: "rel = joinSlash (replicate (length bs0) ''..'' @ ts0)"
    by (auto split: if_splits)
  have ts0: "ts0 \<noteq> []"
  proof
    assume "ts0 = []"
    with relv have "CHR ''t'' \<notin> set rel" using dots_have_no_t [of "length bs0"] by simp
    with path have "CHR ''t'' \<notin> set path" by (auto split: if_splits)
    with t_in_path show False by simp
  qed
  have pr: "list_all properElement bs0"
  proof (cases bs0)
    case Nil
    then show ?thesis by simp
  next
    case (Cons b bs')
    with ok have "b \<noteq> ''..''" by simp
    with cb Cons show ?thesis using cleanElements_suffix_proper [of rt pre b bs'] by simp
  qed
  have "last ts0 = e" using tse ts0 by (metis last_appendR last_snoc)
  then have "ts0 = butlast ts0 @ [e]" using ts0 by (metis append_butlast_last_id)
  then have "rel = joinSlash ((replicate (length bs0) ''..'' @ butlast ts0) @ [e])"
    using relv by simp
  then have "suffix e rel" using suffix_joinSlash_last by metis
  with e have "suffix ''.ts'' rel" by (rule suffix_order.trans)
  then have "suffix ''.ts'' path" using path by (auto simp: suffix_def)
  then obtain q where q: "path = q @ ''.ts''" by (auto simp: suffix_def)
  with strip removeTsSuffix_suffix [of q] have restored: "stripped @ ''.ts'' = path" by simp
  have ne: "replicate (length bs0) ''..'' @ ts0 \<noteq> []" using ts0 by simp
  have pv: "path = joinSlash (replicate (length bs0) ''..'' @ ts0)
            \<or> path = ''./'' @ joinSlash (replicate (length bs0) ''..'' @ ts0)"
    using path relv by (simp split: if_splits)
  have "Clean (renderPath rt (pre @ bs0) @ CHR ''/'' # path) = renderPath rt (pre @ ts0)"
    by (rule Clean_joined [OF cb ct' pr ne pv])
  then have "Clean (Clean dir @ CHR ''/'' # path) = Clean target"
    using d ds same t tse by simp
  with restored show ?thesis by simp
qed

section \<open>Claims\<close>

text \<open>
  C1. The claim: the externality predicate is false exactly for names that start with
  \<open>.<package>.\<close> or are not package-rooted, so that \<open>isExternal(".pkg2.Foo", "pkg")\<close> is true.
  The code compares with the prefix \<open>.<package>\<close> only, with no boundary after the package
  name: on the type \<open>.pkg2.Foo\<close> seen from package \<open>pkg\<close> both revisions answer false, although
  the type lives outside the package.
\<close>

theorem isExternal_prefix_collision:
  "isExternalDependenciesOutsidePackage ''.pkg2.Foo'' ''pkg'' = False
   \<and> isExternalDependencies ''.pkg2.Foo'' ''pkg'' = False
   \<and> isExternalDependenciesOutsidePackage ''.pkg.Foo'' ''pkg'' = False
   \<and> isExternalDependenciesOutsidePackage ''.other.Foo'' ''pkg'' = True"
  by (simp add: isExternalDependenciesOutsidePackage_def isExternalDependencies_def
      strings_Index_def)

text \<open>
  C2, as amended. When a run of the resolver ends without an error, every file has been
  changed in its \<open>Dependencies\<close> only, by appending exactly one record per distinct key
  \<open>package|file\<close> among the types it names. That number is never more than the number \<open>M\<close> of
  distinct pairs (package, declaring file), and it is \<open>M\<close> when no package name contains the
  character \<open>|\<close>. This holds for both revisions of the resolver.
\<close>

theorem one_record_per_key:
  assumes "run = collectExternalDependenciesFromData env r files
           \<or> run = collectExternalDependenciesFromData_rev0 env r files"
    and "err run = None"
  shows "list_all2 (\<lambda>fileData fileData'.
           \<exists>new. fileData' = fileData\<lparr>Dependencies := Dependencies fileData @ new\<rparr>
             \<and> length new = length (remdups (dependencyKeys (Types r) (ExternalDependingTypes fileData)))
             \<and> length new \<le> length (remdups (referencedPairs (Types r) (ExternalDependingTypes fileData)))
             \<and> ((\<forall>(p, f)\<in>set (referencedPairs (Types r) (ExternalDependingTypes fileData)).
                    CHR ''|'' \<notin> set p)
                 \<longrightarrow> length new = length (remdups (referencedPairs (Types r) (ExternalDependingTypes fileData)))))
         files (filesData run)"
proof -
  from assms(1) obtain mk where
    f: "filesData run = fst (collectFiles mk (Types r) files)"
    and e: "err run = snd (collectFiles mk (Types r) files)"
    using run_fields(2,3) [of env r files] run_rev0_fields(2,3) [of env r files] by metis
  from e assms(2) have "collectFiles mk (Types r) files = (filesData run, None)"
    using f by (metis prod.collapse)
  from collectFiles_success [OF this]
  have ok: "list_all2 (\<lambda>f f'. collectFile mk (Types r) f = Inr f') files (filesData run)" .
  show ?thesis
  proof (rule list_all2_mono [OF ok])
    fix fileData fileData'
    assume "collectFile mk (Types r) fileData = Inr fileData'"
    from collectFile_appends [OF this] obtain new where
      n: "fileData' = fileData\<lparr>Dependencies := Dependencies fileData @ new\<rparr>"
         "length new = length (remdups (dependencyKeys (Types r) (ExternalDependingTypes fileData)))"
      by blast
    have "length new \<le> length (remdups (referencedPairs (Types r) (ExternalDependingTypes fileData)))"
      using n(2) keys_le_pairs [of "Types r" "ExternalDependingTypes fileData"] by simp
    moreover have "(\<forall>(p, f)\<in>set (referencedPairs (Types r) (ExternalDependingTypes fileData)).
                    CHR ''|'' \<notin> set p)
                 \<longrightarrow> length new = length (remdups (referencedPairs (Types r) (ExternalDependingTypes fileData)))"
      using n(2) keys_eq_pairs [of "Types r" "ExternalDependingTypes fileData"] by simp
    ultimately show "\<exists>new. fileData' = fileData\<lparr>Dependencies := Dependencies fileData @ new\<rparr>
             \<and> length new = length (remdups (dependencyKeys (Types r) (ExternalDependingTypes fileData)))
             \<and> length new \<le> length (remdups (referencedPairs (Types r) (ExternalDependingTypes fileData)))
             \<and> ((\<forall>(p, f)\<in>set (referencedPairs (Types r) (ExternalDependingTypes fileData)).
                    CHR ''|'' \<notin> set p)
                 \<longrightarrow> length new = length (remdups (referencedPairs (Types r) (ExternalDependingTypes fileData))))"
      using n by blast
  qed
qed

theorem one_record_per_key_witness:
  "err (collectExternalDependenciesFromData exampleEnv (exampleRegistry [])
         [sampleFile ''b.pb.ts'' [''.p1.Foo'', ''.p1.Bar'', ''.p3.Baz'']]) = None
   \<and> referencedPairs (Types (exampleRegistry [])) [''.p1.Foo'', ''.p1.Bar'', ''.p3.Baz'']
       = [(''p1'', ''a.proto''), (''p1'', ''a.proto''), (''p3'', ''sub/c.proto'')]
   \<and> (\<exists>new. filesData (collectExternalDependenciesFromData exampleEnv (exampleRegistry [])
                 [sampleFile ''b.pb.ts'' [''.p1.Foo'', ''.p1.Bar'', ''.p3.Baz'']])
               = [(sampleFile ''b.pb.ts'' [''.p1.Foo'', ''.p1.Bar'', ''.p3.Baz''])\<lparr>Dependencies := new\<rparr>]
             \<and> length new = 2)"
proof -
  let ?files = "[sampleFile ''b.pb.ts'' [''.p1.Foo'', ''.p1.Bar'', ''.p3.Baz'']]"
  let ?run = "collectExternalDependenciesFromData exampleEnv (exampleRegistry []) ?files"
  have h: "err ?run = None"
    by (simp add: resolver_defs example_defs)
  have p: "referencedPairs (Types (exampleRegistry [])) [''.p1.Foo'', ''.p1.Bar'', ''.p3.Baz'']
       = [(''p1'', ''a.proto''), (''p1'', ''a.proto''), (''p3'', ''sub/c.proto'')]"
    by (simp add: referencedPairs_def example_defs)
  have np: "\<forall>(p, f)\<in>set (referencedPairs (Types (exampleRegistry [])) [''.p1.Foo'', ''.p1.Bar'', ''.p3.Baz'']).
              CHR ''|'' \<notin> set p"
    by (simp add: p)
  have m: "length (remdups (referencedPairs (Types (exampleRegistry [])) [''.p1.Foo'', ''.p1.Bar'', ''.p3.Baz''])) = 2"
    by (simp add: p)
  from one_record_per_key [OF disjI1 [OF refl] h, unfolded list_all2_Cons1]
  obtain f' rest new where f': "filesData ?run = f' # rest" and r: "list_all2 (\<lambda>a b. True) [] rest"
    and n: "f' = (sampleFile ''b.pb.ts'' [''.p1.Foo'', ''.p1.Bar'', ''.p3.Baz''])
              \<lparr>Dependencies := Dependencies (sampleFile ''b.pb.ts'' [''.p1.Foo'', ''.p1.Bar'', ''.p3.Baz'']) @ new\<rparr>"
    and i: "(\<forall>(p, f)\<in>set (referencedPairs (Types (exampleRegistry []))
                (ExternalDependingTypes (sampleFile ''b.pb.ts'' [''.p1.Foo'', ''.p1.Bar'', ''.p3.Baz'']))).
                    CHR ''|'' \<notin> set p)
                 \<longrightarrow> length new = length (remdups (referencedPairs (Types (exampleRegistry []))
                (ExternalDependingTypes (sampleFile ''b.pb.ts'' [''.p1.Foo'', ''.p1.Bar'', ''.p3.Baz'']))))"
    by (elim exE conjE) (rule that, assumption, simp, assumption, assumption)
  have e: "ExternalDependingTypes (sampleFile ''b.pb.ts'' [''.p1.Foo'', ''.p1.Bar'', ''.p3.Baz''])
             = [''.p1.Foo'', ''.p1.Bar'', ''.p3.Baz'']"
    by (simp add: sampleFile_def)
  from i np m have "length new = 2" unfolding e by simp
  moreover from n have
    "f' = (sampleFile ''b.pb.ts'' [''.p1.Foo'', ''.p1.Bar'', ''.p3.Baz''])\<lparr>Dependencies := new\<rparr>"
    by (simp add: sampleFile_def)
  moreover from r have "rest = []" by simp
  ultimately show ?thesis using f' h p by blast
qed

text \<open>
  The claim as stated asks for \<open>M\<close> records whenever every name has a registry entry.
  First, a path computation can still fail: the type \<open>.p4.Odd\<close> is registered, its
  declaring file is not part of the run and \<^verbatim>\<open>filepath.Glob\<close> rejects the pattern built
  from its name; the run returns that error and the file, with \<open>M = 1\<close>, receives no record.
  Second, the records are keyed by the string \<open>package|file\<close>: the pairs
  (\<open>a|b\<close>, \<open>c.proto\<close>) and (\<open>a\<close>, \<open>b|c.proto\<close>) share the key \<open>a|b|c.proto\<close>, and a file that
  names a type of each, with \<open>M = 2\<close>, receives one record.
\<close>

theorem exactly_M_records_fails:
  "Types (exampleRegistry []) ''.p4.Odd'' \<noteq> None
   \<and> length (remdups (referencedPairs (Types (exampleRegistry [])) [''.p4.Odd''])) = 1
   \<and> collectExternalDependenciesFromData exampleEnv (exampleRegistry [])
        [sampleFile ''b.pb.ts'' [''.p4.Odd'']]
      = \<lparr>registry = exampleRegistry [],
         filesData = [\<lparr>TSFileName = ''b.pb.ts'', ExternalDependingTypes = [''.p4.Odd''],
                       Dependencies = []\<rparr>],
         err = Some (GlobLookupError ''a[.proto'')\<rparr>
   \<and> Types collidingRegistry ''.x.A'' \<noteq> None
   \<and> Types collidingRegistry ''.y.B'' \<noteq> None
   \<and> length (remdups (referencedPairs (Types collidingRegistry) [''.x.A'', ''.y.B''])) = 2
   \<and> collectExternalDependenciesFromData exampleEnv collidingRegistry
        [sampleFile ''m.pb.ts'' [''.x.A'', ''.y.B'']]
      = \<lparr>registry = collidingRegistry,
         filesData = [\<lparr>TSFileName = ''m.pb.ts'', ExternalDependingTypes = [''.x.A'', ''.y.B''],
                       Dependencies = [\<lparr>ModuleIdentifier = ''a|b:c.proto'', SourceFile = ''./c.pb''\<rparr>]\<rparr>],
         err = None\<rparr>"
  by (simp add: resolver_defs example_defs referencedPairs_def collidingRegistry_def)

text \<open>
  C3. The claim: a target outside the run whose glob search finds nothing ends the run
  with an error value that names the current and the target file. The code tests
  \<^verbatim>\<open>len(matches) > 1\<close> only and then reads \<^verbatim>\<open>matches[0]\<close>: with no match the run ends in
  the index-out-of-range panic, which is no error value and carries no file name.
\<close>

theorem glob_no_match_panics:
  "err (collectExternalDependenciesFromData exampleEnv (exampleRegistry [])
         [sampleFile ''b.pb.ts'' [''.p6.Lost'']]) = Some PanicIndexOutOfRange
   \<and> errorMessage PanicIndexOutOfRange = None"
  by (simp add: resolver_defs example_defs)

text \<open>
  C4. For a target that is part of the run and whose output name ends in \<open>.ts\<close>: when a
  record is stored, joining the directory of the current file's output name with the
  stored source file, its \<open>.ts\<close> put back, gives the target's output name in cleaned form,
  which is the output name itself when that is a cleaned path.
\<close>

theorem in_run_path_round_trip:
  assumes "IsFileToGenerate r (File typeInfo)"
    and "newDependency env r fileData typeInfo = Inr dependency"
    and "suffix ''.ts'' (GetTSFileName env (File typeInfo))"
  shows "filepath_Join [filepath_Dir (TSFileName fileData), SourceFile dependency @ ''.ts'']
           = Clean (GetTSFileName env (File typeInfo))
         \<and> (Clean (GetTSFileName env (File typeInfo)) = GetTSFileName env (File typeInfo)
            \<longrightarrow> filepath_Join [filepath_Dir (TSFileName fileData), SourceFile dependency @ ''.ts'']
                = GetTSFileName env (File typeInfo))"
proof -
  let ?target = "GetTSFileName env (File typeInfo)"
  let ?dir = "rev (dropWhile (\<lambda>c. c \<noteq> Separator) (rev (TSFileName fileData)))"
  have dir: "filepath_Dir (TSFileName fileData) = Clean ?dir" by (simp add: filepath_Dir_def)
  from assms(2) obtain path where p: "sourceFilePath env r fileData typeInfo = Inr path"
    and s: "removeTsSuffix path = Inr (SourceFile dependency)"
    by (auto simp: newDependency_def split: sum.splits)
  from p sourceFilePath_in_run [OF assms(1), of env fileData] obtain rel where
    rel: "filepath_Rel (Clean ?dir) ?target = Some rel"
    and path: "path = (if prefix ''../'' rel then rel else ''./'' @ rel)"
    by (auto simp: dir relativeSourceFile_slash Separator_def split: option.splits)
  from rel_round_trip [OF rel path s assms(3)]
  have a: "SourceFile dependency @ ''.ts'' = path"
    and b: "Clean (Clean ?dir @ CHR ''/'' # path) = Clean ?target" by simp_all
  have "Clean ?dir \<noteq> []"
    using Clean_render [of ?dir] renderPath_nonempty by metis
  then have "filepath_Join [filepath_Dir (TSFileName fileData), SourceFile dependency @ ''.ts'']
        = Clean (Clean ?dir @ CHR ''/'' # path)"
    by (simp add: dir a)
  with b show ?thesis by simp
qed

theorem in_run_path_round_trip_witness:
  "IsFileToGenerate (exampleRegistry []) (File (sampleType ''.p3.Baz'' ''p3'' ''sub/c.proto''))
   \<and> newDependency exampleEnv (exampleRegistry []) (sampleFile ''x/y/b.pb.ts'' [''.p3.Baz''])
        (sampleType ''.p3.Baz'' ''p3'' ''sub/c.proto'')
       = Inr \<lparr>ModuleIdentifier = ''p3:sub/c.proto'', SourceFile = ''../../sub/c.pb''\<rparr>
   \<and> suffix ''.ts'' (GetTSFileName exampleEnv (File (sampleType ''.p3.Baz'' ''p3'' ''sub/c.proto'')))
   \<and> filepath_Join [filepath_Dir ''x/y/b.pb.ts'', ''../../sub/c.pb'' @ ''.ts''] = ''sub/c.pb.ts''
   \<and> GetTSFileName exampleEnv ''sub/c.proto'' = ''sub/c.pb.ts''"
proof -
  let ?t = "sampleType ''.p3.Baz'' ''p3'' ''sub/c.proto''"
  let ?f = "sampleFile ''x/y/b.pb.ts'' [''.p3.Baz'']"
  have h1: "IsFileToGenerate (exampleRegistry []) (File ?t)"
    by (simp add: IsFileToGenerate_def example_defs)
  have h2: "newDependency exampleEnv (exampleRegistry []) ?f ?t
       = Inr \<lparr>ModuleIdentifier = ''p3:sub/c.proto'', SourceFile = ''../../sub/c.pb''\<rparr>"
    by (simp add: resolver_defs example_defs)
  have h3: "suffix ''.ts'' (GetTSFileName exampleEnv (File ?t))"
    by (simp add: example_defs)
  have g: "GetTSFileName exampleEnv ''sub/c.proto'' = ''sub/c.pb.ts''"
    by (simp add: example_defs)
  have c: "Clean ''sub/c.pb.ts'' = ''sub/c.pb.ts''"
    by (simp add: Clean_def cleanStep_def)
  from in_run_path_round_trip [OF h1 h2 h3] g c
  have "filepath_Join [filepath_Dir ''x/y/b.pb.ts'', ''../../sub/c.pb'' @ ''.ts''] = ''sub/c.pb.ts''"
    by (simp add: sampleFile_def sampleType_def)
  with h1 h2 h3 g show ?thesis by blast
qed

text \<open>
  C5, as amended. For a target that is part of the run, the import path is the target's
  output name relative to the directory of the current file's output name (a failing
  \<^verbatim>\<open>filepath.Rel\<close> is the error of that branch), put in slash form, with \<open>./\<close> in front unless
  it starts with \<open>../\<close>, and then converted back to the separator of the build by
  \<^verbatim>\<open>filepath.FromSlash\<close>. On either build the path, and the source file stored from it,
  begins with \<open>.\<close> or \<open>..\<close> followed by the separator of the build; for the build whose
  separator is \<open>/\<close> the source file of every record built for such a target begins with
  \<open>./\<close> or \<open>../\<close>.
\<close>

theorem in_run_import_path:
  assumes "IsFileToGenerate r (File typeInfo)"
    and "sep = CHR ''/'' \<or> sep = CHR 0x5C"
  shows "sourceFilePath env r fileData typeInfo =
     (case filepath_Rel (filepath_Dir (TSFileName fileData)) (GetTSFileName env (File typeInfo)) of
        None \<Rightarrow> Inl (RelPathError (TSFileName fileData) (GetTSFileName env (File typeInfo)))
      | Some rel \<Rightarrow> Inr (relativeSourceFile Separator rel))
   \<and> relativeSourceFile sep relPath =
       filepath_FromSlash sep
         (if prefix ''../'' (filepath_ToSlash sep relPath) then filepath_ToSlash sep relPath
          else ''./'' @ filepath_ToSlash sep relPath)
   \<and> (prefix [CHR ''.'', sep] (relativeSourceFile sep relPath)
        \<or> prefix [CHR ''.'', CHR ''.'', sep] (relativeSourceFile sep relPath))
   \<and> (\<forall>stripped. removeTsSuffix (relativeSourceFile sep relPath) = Inr stripped
          \<longrightarrow> prefix [CHR ''.'', sep] stripped \<or> prefix [CHR ''.'', CHR ''.'', sep] stripped)
   \<and> (\<forall>dependency. newDependency env r fileData typeInfo = Inr dependency
          \<longrightarrow> prefix ''./'' (SourceFile dependency) \<or> prefix ''../'' (SourceFile dependency))"
proof (intro conjI allI impI)
  show "sourceFilePath env r fileData typeInfo =
     (case filepath_Rel (filepath_Dir (TSFileName fileData)) (GetTSFileName env (File typeInfo)) of
        None \<Rightarrow> Inl (RelPathError (TSFileName fileData) (GetTSFileName env (File typeInfo)))
      | Some rel \<Rightarrow> Inr (relativeSourceFile Separator rel))"
    by (rule sourceFilePath_in_run [OF assms(1)])
next
  show "relativeSourceFile sep relPath =
       filepath_FromSlash sep
         (if prefix ''../'' (filepath_ToSlash sep relPath) then filepath_ToSlash sep relPath
          else ''./'' @ filepath_ToSlash sep relPath)"
    by (rule relativeSourceFile_unfold)
next
  show "prefix [CHR ''.'', sep] (relativeSourceFile sep relPath)
        \<or> prefix [CHR ''.'', CHR ''.'', sep] (relativeSourceFile sep relPath)"
    by (rule relativeSourceFile_prefix)
next
  fix stripped
  assume s: "removeTsSuffix (relativeSourceFile sep relPath) = Inr stripped"
  have sep: "sep \<noteq> CHR ''t''" "sep \<noteq> CHR ''.''" using assms(2) by auto
  from relativeSourceFile_prefix [of sep relPath]
  show "prefix [CHR ''.'', sep] stripped \<or> prefix [CHR ''.'', CHR ''.'', sep] stripped"
    using removeTsSuffix_keeps_dot_sep [OF s _ sep] removeTsSuffix_keeps_dot_dot_sep [OF s _ sep]
    by blast
next
  fix dependency
  assume d: "newDependency env r fileData typeInfo = Inr dependency"
  then obtain path where p: "sourceFilePath env r fileData typeInfo = Inr path"
    and s: "removeTsSuffix path = Inr (SourceFile dependency)"
    by (auto simp: newDependency_def split: sum.splits)
  from p sourceFilePath_in_run [OF assms(1), of env fileData] obtain rel where
    "path = relativeSourceFile (CHR ''/'') rel"
    by (auto simp: Separator_def split: option.splits)
  with relativeSourceFile_prefix [of "CHR ''/''" rel]
  have "prefix ''./'' path \<or> prefix ''../'' path" by simp
  then show "prefix ''./'' (SourceFile dependency) \<or> prefix ''../'' (SourceFile dependency)"
    using removeTsSuffix_keeps_dot_sep [OF s, of "CHR ''/''"]
      removeTsSuffix_keeps_dot_dot_sep [OF s, of "CHR ''/''"]
    by auto
qed

theorem in_run_import_path_witness:
  "IsFileToGenerate (exampleRegistry []) (File (sampleType ''.p3.Baz'' ''p3'' ''sub/c.proto''))
   \<and> ((CHR 0x5C :: char) = CHR ''/'' \<or> (CHR 0x5C :: char) = CHR 0x5C)
   \<and> sourceFilePath exampleEnv (exampleRegistry []) (sampleFile ''x/b.pb.ts'' [''.p3.Baz''])
        (sampleType ''.p3.Baz'' ''p3'' ''sub/c.proto'') = Inr ''../sub/c.pb.ts''
   \<and> sourceFilePath exampleEnv (exampleRegistry []) (sampleFile ''b.pb.ts'' [''.p3.Baz''])
        (sampleType ''.p3.Baz'' ''p3'' ''sub/c.proto'') = Inr ''./sub/c.pb.ts''
   \<and> newDependency exampleEnv (exampleRegistry []) (sampleFile ''b.pb.ts'' [''.p3.Baz''])
        (sampleType ''.p3.Baz'' ''p3'' ''sub/c.proto'')
       = Inr \<lparr>ModuleIdentifier = ''p3:sub/c.proto'', SourceFile = ''./sub/c.pb''\<rparr>
   \<and> relativeSourceFile (CHR 0x5C) ''c.pb.ts'' = CHR ''.'' # CHR 0x5C # ''c.pb.ts''
   \<and> removeTsSuffix (relativeSourceFile (CHR 0x5C) ''c.pb.ts'') = Inr (CHR ''.'' # CHR 0x5C # ''c.pb'')
   \<and> prefix [CHR ''.'', CHR 0x5C] (CHR ''.'' # CHR 0x5C # ''c.pb'')"
proof -
  have h: "IsFileToGenerate (exampleRegistry []) (File (sampleType ''.p3.Baz'' ''p3'' ''sub/c.proto''))"
    by (simp add: IsFileToGenerate_def example_defs)
  have b: "(CHR 0x5C :: char) = CHR ''/'' \<or> (CHR 0x5C :: char) = CHR 0x5C" by simp
  have r1: "filepath_Rel (filepath_Dir ''x/b.pb.ts'') ''sub/c.pb.ts'' = Some ''../sub/c.pb.ts''"
    by (simp add: resolver_defs)
  have r2: "filepath_Rel (filepath_Dir ''b.pb.ts'') ''sub/c.pb.ts'' = Some ''sub/c.pb.ts''"
    by (simp add: resolver_defs)
  have d: "newDependency exampleEnv (exampleRegistry []) (sampleFile ''b.pb.ts'' [''.p3.Baz''])
        (sampleType ''.p3.Baz'' ''p3'' ''sub/c.proto'')
       = Inr \<lparr>ModuleIdentifier = ''p3:sub/c.proto'', SourceFile = ''./sub/c.pb''\<rparr>"
    by (simp add: resolver_defs example_defs)
  have w: "removeTsSuffix (relativeSourceFile (CHR 0x5C) ''c.pb.ts'') = Inr (CHR ''.'' # CHR 0x5C # ''c.pb'')"
    by (simp add: resolver_defs)
  from in_run_import_path [OF h b, of exampleEnv "sampleFile ''x/b.pb.ts'' [''.p3.Baz'']" "''c.pb.ts''"] r1
  have x: "sourceFilePath exampleEnv (exampleRegistry []) (sampleFile ''x/b.pb.ts'' [''.p3.Baz''])
        (sampleType ''.p3.Baz'' ''p3'' ''sub/c.proto'') = Inr ''../sub/c.pb.ts''"
    and v: "relativeSourceFile (CHR 0x5C) ''c.pb.ts'' = CHR ''.'' # CHR 0x5C # ''c.pb.ts''"
    by (simp_all add: example_defs resolver_defs)
  from in_run_import_path [OF h b, of exampleEnv "sampleFile ''b.pb.ts'' [''.p3.Baz'']" "''c.pb.ts''"] r2
  have y: "sourceFilePath exampleEnv (exampleRegistry []) (sampleFile ''b.pb.ts'' [''.p3.Baz''])
        (sampleType ''.p3.Baz'' ''p3'' ''sub/c.proto'') = Inr ''./sub/c.pb.ts''"
    by (simp add: example_defs resolver_defs)
  have z: "prefix [CHR ''.'', CHR 0x5C] (CHR ''.'' # CHR 0x5C # ''c.pb'')" by simp
  from h b x y d v w z show ?thesis by blast
qed

text \<open>
  The claim as stated promises a path in slash form that begins with \<open>./\<close> or \<open>../\<close>. Line
  209 converts the prefixed path back with \<^verbatim>\<open>filepath.FromSlash\<close>: on a build whose separator
  is the backslash, a target beside the current file (\<^verbatim>\<open>filepath.Rel\<close> returns \<open>c.pb.ts\<close>) and
  one in a directory below it (\<^verbatim>\<open>filepath.Rel\<close> returns \<open>sub\<close>, a backslash, \<open>c.pb.ts\<close>) give
  paths, and stored source files, that begin with a dot and a backslash.
\<close>

theorem backslash_build_import_path:
  "relativeSourceFile (CHR 0x5C) ''c.pb.ts'' = CHR ''.'' # CHR 0x5C # ''c.pb.ts''
   \<and> \<not> prefix ''./'' (relativeSourceFile (CHR 0x5C) ''c.pb.ts'')
   \<and> \<not> prefix ''../'' (relativeSourceFile (CHR 0x5C) ''c.pb.ts'')
   \<and> removeTsSuffix (relativeSourceFile (CHR 0x5C) ''c.pb.ts'') = Inr (CHR ''.'' # CHR 0x5C # ''c.pb'')
   \<and> \<not> prefix ''./'' (CHR ''.'' # CHR 0x5C # ''c.pb'')
   \<and> \<not> prefix ''../'' (CHR ''.'' # CHR 0x5C # ''c.pb'')
   \<and> relativeSourceFile (CHR 0x5C) (''sub'' @ CHR 0x5C # ''c.pb.ts'')
       = CHR ''.'' # CHR 0x5C # ''sub'' @ CHR 0x5C # ''c.pb.ts''
   \<and> removeTsSuffix (relativeSourceFile (CHR 0x5C) (''sub'' @ CHR 0x5C # ''c.pb.ts''))
       = Inr (CHR ''.'' # CHR 0x5C # ''sub'' @ CHR 0x5C # ''c.pb'')
   \<and> \<not> prefix ''./'' (CHR ''.'' # CHR 0x5C # ''sub'' @ CHR 0x5C # ''c.pb'')
   \<and> \<not> prefix ''../'' (CHR ''.'' # CHR 0x5C # ''sub'' @ CHR 0x5C # ''c.pb'')"
  by (simp add: resolver_defs)

text \<open>
  C6. The claim: with an alias configured, the import-root prefix of the resolved path is
  replaced by the alias. The code calls \<^verbatim>\<open>strings.ReplaceAll\<close>, which replaces every
  occurrence of the root: with root \<open>/gen\<close>, alias \<open>@gen\<close> and the resolved path
  \<open>/gen/ts/gen/a.pb.ts\<close> the stored path is \<open>@gen/ts@gen/a.pb\<close>, where replacing the prefix
  gives \<open>@gen/ts/gen/a.pb\<close>.
\<close>

theorem alias_replaces_every_occurrence:
  "Glob exampleEnv (path_Join [''/gen'', ''**'', ''gen/a.proto'']) = Some [''/gen/ts/gen/a.proto'']
   \<and> GetTSFileName exampleEnv ''/gen/ts/gen/a.proto'' = ''/gen/ts/gen/a.pb.ts''
   \<and> filesData (collectExternalDependenciesFromData exampleEnv (exampleRegistry ''@gen'')
         [sampleFile ''b.pb.ts'' [''.p5.Gen'']])
     = [\<lparr>TSFileName = ''b.pb.ts'', ExternalDependingTypes = [''.p5.Gen''],
         Dependencies = [\<lparr>ModuleIdentifier = ''p5:gen/a.proto'', SourceFile = ''@gen/ts@gen/a.pb''\<rparr>]\<rparr>]"
  by (simp add: resolver_defs example_defs)

text \<open>
  C7. When the computed import path ends in \<open>.ts\<close>, the record stored has that path without
  the suffix as its source file. The path is whatever branch computed it; the witness
  takes one input through each of the three branches.
\<close>

theorem suffix_removed:
  assumes "sourceFilePath env r fileData typeInfo = Inr (path @ ''.ts'')"
  shows "newDependency env r fileData typeInfo =
           Inr \<lparr>ModuleIdentifier = GetModuleName env (Package typeInfo) (File typeInfo),
                SourceFile = path\<rparr>"
  using assms removeTsSuffix_suffix [of path] by (simp add: newDependency_def)

theorem suffix_removed_witness:
  "sourceFilePath exampleEnv (exampleRegistry []) (sampleFile ''b.pb.ts'' [])
     (sampleType ''.p1.Foo'' ''p1'' ''a.proto'') = Inr (''./a.pb'' @ ''.ts'')
   \<and> newDependency exampleEnv (exampleRegistry []) (sampleFile ''b.pb.ts'' [])
     (sampleType ''.p1.Foo'' ''p1'' ''a.proto'')
       = Inr \<lparr>ModuleIdentifier = ''p1:a.proto'', SourceFile = ''./a.pb''\<rparr>
   \<and> sourceFilePath exampleEnv (exampleRegistry ''@gen'') (sampleFile ''b.pb.ts'' [])
     (sampleType ''.p5.Gen'' ''p5'' ''gen/a.proto'') = Inr (''@gen/ts@gen/a.pb'' @ ''.ts'')
   \<and> newDependency exampleEnv (exampleRegistry ''@gen'') (sampleFile ''b.pb.ts'' [])
     (sampleType ''.p5.Gen'' ''p5'' ''gen/a.proto'')
       = Inr \<lparr>ModuleIdentifier = ''p5:gen/a.proto'', SourceFile = ''@gen/ts@gen/a.pb''\<rparr>
   \<and> sourceFilePath exampleEnv (exampleRegistry []) (sampleFile ''x/b.pb.ts'' [])
     (sampleType ''.p5.Gen'' ''p5'' ''gen/a.proto'') = Inr (''../../gen/ts/gen/a.pb'' @ ''.ts'')
   \<and> newDependency exampleEnv (exampleRegistry []) (sampleFile ''x/b.pb.ts'' [])
     (sampleType ''.p5.Gen'' ''p5'' ''gen/a.proto'')
       = Inr \<lparr>ModuleIdentifier = ''p5:gen/a.proto'', SourceFile = ''../../gen/ts/gen/a.pb''\<rparr>"
proof -
  have a: "sourceFilePath exampleEnv (exampleRegistry []) (sampleFile ''b.pb.ts'' [])
     (sampleType ''.p1.Foo'' ''p1'' ''a.proto'') = Inr (''./a.pb'' @ ''.ts'')"
    by (simp add: resolver_defs example_defs)
  have b: "sourceFilePath exampleEnv (exampleRegistry ''@gen'') (sampleFile ''b.pb.ts'' [])
     (sampleType ''.p5.Gen'' ''p5'' ''gen/a.proto'') = Inr (''@gen/ts@gen/a.pb'' @ ''.ts'')"
    by (simp add: resolver_defs example_defs)
  have c: "sourceFilePath exampleEnv (exampleRegistry []) (sampleFile ''x/b.pb.ts'' [])
     (sampleType ''.p5.Gen'' ''p5'' ''gen/a.proto'') = Inr (''../../gen/ts/gen/a.pb'' @ ''.ts'')"
    by (simp add: resolver_defs example_defs)
  show ?thesis
    using a b c suffix_removed [OF a] suffix_removed [OF b] suffix_removed [OF c]
    by (simp add: example_defs)
qed




text \<open>
  C9. A run leaves the registry as it was, and every file after the run is the file
  before it with records appended to \<open>Dependencies\<close>: its output name, its list of type
  names and every other field are unchanged, whether the run fails or not.
\<close>

theorem resolver_frame:
  "registry (collectExternalDependenciesFromData env r files) = r
   \<and> list_all2 (\<lambda>fileData fileData'.
        \<exists>new. fileData' = fileData\<lparr>Dependencies := Dependencies fileData @ new\<rparr>)
      files (filesData (collectExternalDependenciesFromData env r files))"
  using collectFiles_frame [of files "newDependency env r" "Types r"]
  by (simp add: run_fields)

text \<open>
  C10. Building a record ends in the slice-bounds panic exactly when a path was computed
  and that path does not contain \<open>.ts\<close>: a path without \<open>.ts\<close> always panics, on whichever
  branch it was computed, and a path that contains \<open>.ts\<close> never does.
\<close>

theorem missing_suffix_panics:
  "newDependency env r fileData typeInfo = Inl PanicSliceBounds
   \<longleftrightarrow> (\<exists>path. sourceFilePath env r fileData typeInfo = Inr path \<and> \<not> strings_Contains path ''.ts'')"
proof (cases "sourceFilePath env r fileData typeInfo")
  case (Inl e)
  with sourceFilePath_failures [OF Inl] show ?thesis by (simp add: newDependency_def)
next
  case (Inr path)
  have "newDependency env r fileData typeInfo = Inl PanicSliceBounds
        \<longleftrightarrow> removeTsSuffix path = Inl PanicSliceBounds"
    using Inr by (auto simp: newDependency_def split: sum.splits)
  with Inr show ?thesis by (simp add: removeTsSuffix_panics)
qed

end
